theory Spec2Isabelle
  imports Main "HOL-Library.Sublist"
begin

section \<open>JavaScript strings\<close>

text \<open>
  A JavaScript string is a sequence of UTF-16 code units; \<open>length\<close>, \<open>slice\<close>, \<open>split\<close> and
  the regular expressions of the service (none has the \<open>u\<close> flag) all work on code units.
  A code unit is a natural number; \<open>js\<close> turns an ASCII literal into its code units.
\<close>

type_synonym jsstring = "nat list"

definition js :: "string \<Rightarrow> jsstring" where
  "js s = map of_char s"

text \<open>The character classes \<open>\d\<close>, \<open>\w\<close>, \<open>[A-Za-z0-9_-]\<close> and \<open>\s\<close> of ECMAScript
  (\<open>\s\<close> is WhiteSpace and LineTerminator, which is also what \<open>trim\<close> strips).\<close>

definition isDigit :: "nat \<Rightarrow> bool" where
  "isDigit c = (48 \<le> c \<and> c \<le> 57)"

definition isWordChar :: "nat \<Rightarrow> bool" where
  "isWordChar c = ((65 \<le> c \<and> c \<le> 90) \<or> (97 \<le> c \<and> c \<le> 122) \<or> isDigit c \<or> c = 95)"

definition isIdChar :: "nat \<Rightarrow> bool" where
  "isIdChar c = ((65 \<le> c \<and> c \<le> 90) \<or> (97 \<le> c \<and> c \<le> 122) \<or> isDigit c \<or> c = 95 \<or> c = 45)"

definition isSpace :: "nat \<Rightarrow> bool" where
  "isSpace c = ((9 \<le> c \<and> c \<le> 13) \<or> c = 32 \<or> c = 160 \<or> c = 5760 \<or> (8192 \<le> c \<and> c \<le> 8202)
     \<or> c = 8232 \<or> c = 8233 \<or> c = 8239 \<or> c = 8287 \<or> c = 12288 \<or> c = 65279)"

text \<open>\<open>s.trim()\<close>.\<close>

definition trimStart :: "jsstring \<Rightarrow> jsstring" where
  "trimStart s = dropWhile isSpace s"

definition trimEnd :: "jsstring \<Rightarrow> jsstring" where
  "trimEnd s = rev (dropWhile isSpace (rev s))"

definition trim :: "jsstring \<Rightarrow> jsstring" where
  "trim s = trimEnd (trimStart s)"

text \<open>\<open>s.split(sep)\<close> for a one-character separator: the empty string gives one empty piece.\<close>

fun splitOn :: "nat \<Rightarrow> jsstring \<Rightarrow> jsstring list" where
  "splitOn sep [] = [[]]"
| "splitOn sep (c # cs) =
     (if c = sep then [] # splitOn sep cs
      else (case splitOn sep cs of [] \<Rightarrow> [[c]] | l # ls \<Rightarrow> (c # l) # ls))"

text \<open>\<open>lines.join(" ")\<close>.\<close>

fun joinSp :: "jsstring list \<Rightarrow> jsstring" where
  "joinSp [] = []"
| "joinSp [l] = l"
| "joinSp (l # m # ls) = l @ 32 # joinSp (m # ls)"

text \<open>\<open>s.replace(/\s+/g, " ")\<close>: every maximal run of white space becomes one space.\<close>

function collapse :: "jsstring \<Rightarrow> jsstring" where
  "collapse [] = []"
| "collapse (c # cs) =
     (if isSpace c then 32 # collapse (dropWhile isSpace cs) else c # collapse cs)"
  by pat_completeness auto
termination
  by (relation "measure length") (auto simp: length_dropWhile_le less_Suc_eq_le)

text \<open>A sequence of character classes matched at the start of a string, as the anchored
  patterns \<open>/^\d{2}:\d{2}:\d{2}\.\d{3}/\<close> and \<open>/^[\w-]{11}$/\<close> do.\<close>

fun matchSeq :: "(nat \<Rightarrow> bool) list \<Rightarrow> jsstring \<Rightarrow> bool" where
  "matchSeq [] s = True"
| "matchSeq (p # ps) [] = False"
| "matchSeq (p # ps) (c # cs) = (p c \<and> matchSeq ps cs)"

definition isColon :: "nat \<Rightarrow> bool" where
  "isColon c = (c = 58)"

definition isDot :: "nat \<Rightarrow> bool" where
  "isDot c = (c = 46)"

definition timestampPattern :: "(nat \<Rightarrow> bool) list" where
  "timestampPattern =
     [isDigit, isDigit, isColon, isDigit, isDigit, isColon, isDigit, isDigit, isDot,
      isDigit, isDigit, isDigit]"

section \<open>Markup-to-text normalizer (\<open>vttToText\<close>)\<close>

text \<open>
  The filter of \<open>vttToText\<close>: a line is kept when it is non-empty, does not start with
  \<open>WEBVTT\<close>, is not all digits (\<open>/^\d+$/\<close>), does not start with a timestamp and does not
  contain \<open>-->\<close>. The server.js variant tests the same five conditions in another order.
\<close>

definition allDigits :: "jsstring \<Rightarrow> bool" where
  "allDigits l = (l \<noteq> [] \<and> list_all isDigit l)"

definition keepLine :: "jsstring \<Rightarrow> bool" where
  "keepLine l = (l \<noteq> [] \<and> \<not> prefix (js ''WEBVTT'') l \<and> \<not> allDigits l
     \<and> \<not> matchSeq timestampPattern l \<and> \<not> sublist (js ''-->'') l)"

definition keepLine_server :: "jsstring \<Rightarrow> bool" where
  "keepLine_server l = (l \<noteq> [] \<and> \<not> allDigits l \<and> \<not> matchSeq timestampPattern l
     \<and> \<not> sublist (js ''-->'') l \<and> \<not> prefix (js ''WEBVTT'') l)"

text \<open>The variant of src/server.js (lines 21-33): no collapsing, no trimming.\<close>

definition vttToText_server :: "jsstring \<Rightarrow> jsstring" where
  "vttToText_server vtt = joinSp (filter keepLine_server (splitOn 10 (filter (\<lambda>c. c \<noteq> 13) vtt)))"

text \<open>The variant of src/unnamed/part_002 (lines 22-34): the same, with the header test first.\<close>

definition vttToText_plain :: "jsstring \<Rightarrow> jsstring" where
  "vttToText_plain vtt = joinSp (filter keepLine (splitOn 10 (filter (\<lambda>c. c \<noteq> 13) vtt)))"

text \<open>The most complete variant, src/unnamed/part_001 (lines 34-48): white space runs are
  collapsed and the result is trimmed.\<close>

definition vttToText :: "jsstring \<Rightarrow> jsstring" where
  "vttToText vtt =
     trim (collapse (joinSp (filter keepLine (splitOn 10 (filter (\<lambda>c. c \<noteq> 13) vtt)))))"

section \<open>Identifier extractor (\<open>extractVideoId\<close>)\<close>

text \<open>
  A thrown JavaScript value, as far as the service reads it: its \<open>stderr\<close> and \<open>message\<close>
  properties (empty when absent) and what \<open>String(e)\<close> gives.
\<close>

record exn =
  e_stderr :: jsstring
  e_message :: jsstring
  e_string :: jsstring

text \<open>
  \<open>new URL(s)\<close> is the platform's parser, not code of the repository: the model takes it
  as a parameter. It throws (\<open>Inl\<close>) or gives the parts the extractor reads.
\<close>

record url =
  hostname :: jsstring
  pathname :: jsstring
  searchParams :: "(jsstring \<times> jsstring) list"

type_synonym url_parser = "jsstring \<Rightarrow> exn + url"

text \<open>The fallback \<open>String(url).match(/([A-Za-z0-9_-]{11})(?:\b|$)/)\<close>. \<open>matchHere\<close> is one
  attempt of the regular expression at the start of the given suffix; the engine tries the
  start positions from left to right and the first success wins. The word boundary is
  tested after the eleventh character: exactly one of that character and the next one
  (if any) is a word character.\<close>

definition wordBoundaryAfter :: "nat \<Rightarrow> jsstring \<Rightarrow> bool" where
  "wordBoundaryAfter c rest = (isWordChar c \<noteq> (case rest of [] \<Rightarrow> False | d # _ \<Rightarrow> isWordChar d))"

definition matchHere :: "jsstring \<Rightarrow> jsstring option" where
  "matchHere s =
     (if matchSeq (replicate 11 isIdChar) s
         \<and> (wordBoundaryAfter (s ! 10) (drop 11 s) \<or> drop 11 s = [])
      then Some (take 11 s) else None)"

fun regexFallback :: "jsstring \<Rightarrow> jsstring option" where
  "regexFallback [] = None"
| "regexFallback (c # cs) =
     (case matchHere (c # cs) of Some m \<Rightarrow> Some m | None \<Rightarrow> regexFallback cs)"

text \<open>\<open>parts[i]\<close> on an array: \<open>undefined\<close> out of range.\<close>

definition nth_opt :: "'a list \<Rightarrow> nat \<Rightarrow> 'a option" where
  "nth_opt xs i = (if i < length xs then Some (xs ! i) else None)"

text \<open>\<open>parts.findIndex(p => p === "shorts")\<close>; \<open>None\<close> is the result \<open>-1\<close>.\<close>

fun findIndex :: "('a \<Rightarrow> bool) \<Rightarrow> 'a list \<Rightarrow> nat option" where
  "findIndex P [] = None"
| "findIndex P (x # xs) = (if P x then Some 0 else map_option Suc (findIndex P xs))"

text \<open>The loop over \<open>j\<close>: \<open>parts[j]\<close> is one of the keywords and \<open>parts[j + 1]\<close> is a non-empty
  string whose first eleven characters match \<open>/^[\w-]{11}$/\<close>.\<close>

definition idCandidates :: "jsstring list" where
  "idCandidates = [js ''embed'', js ''v'', js ''e'', js ''watch'']"

definition idPattern :: "jsstring \<Rightarrow> bool" where
  "idPattern s = (length s = 11 \<and> matchSeq (replicate 11 isIdChar) s)"

fun scanKeywords :: "jsstring list \<Rightarrow> jsstring option" where
  "scanKeywords [] = None"
| "scanKeywords [p] = None"
| "scanKeywords (p # q # ps) =
     (if p \<in> set idCandidates \<and> q \<noteq> [] \<and> idPattern (take 11 q) then Some (take 11 q)
      else scanKeywords (q # ps))"

text \<open>The rule of the short-link host: \<open>u.pathname.split("/")[1]?.slice(0, 11) || null\<close>.\<close>

definition shortLinkRule :: "url \<Rightarrow> jsstring option" where
  "shortLinkRule u =
     (case nth_opt (splitOn 47 (pathname u)) 1 of
        None \<Rightarrow> None
      | Some seg \<Rightarrow> if take 11 seg = [] then None else Some (take 11 seg))"

text \<open>The segment after \<open>shorts\<close>: \<open>if (i !== -1 && parts[i + 1]) return parts[i + 1].slice(0, 11)\<close>.\<close>

definition shortsRule :: "jsstring list \<Rightarrow> jsstring option" where
  "shortsRule parts =
     (case findIndex (\<lambda>p. p = js ''shorts'') parts of
        None \<Rightarrow> None
      | Some i \<Rightarrow>
          (case nth_opt parts (i + 1) of
             None \<Rightarrow> None
           | Some q \<Rightarrow> if q \<noteq> [] then Some (take 11 q) else None))"

text \<open>The three rules under \<open>if (u.hostname.includes("youtube.com"))\<close>, in the order of the
  source; \<open>None\<close> when none of them returns.\<close>

definition mainSiteRules :: "url \<Rightarrow> jsstring option" where
  "mainSiteRules u =
     (let v = map_of (searchParams u) (js ''v'') in
      if (case v of None \<Rightarrow> False | Some w \<Rightarrow> w \<noteq> [] \<and> length w = 11) then v
      else
        let parts = splitOn 47 (pathname u) in
        (case shortsRule parts of
           Some r \<Rightarrow> Some r
         | None \<Rightarrow> scanKeywords parts))"

text \<open>The body of the \<open>try\<close> block (part_001 lines 52-69, part_002 lines 38-55).\<close>

definition extractVideoId_body :: "url_parser \<Rightarrow> jsstring \<Rightarrow> exn + jsstring option" where
  "extractVideoId_body parse s =
     (case parse (trim s) of
        Inl e \<Rightarrow> Inl e
      | Inr u \<Rightarrow>
          if hostname u = js ''youtu.be'' then Inr (shortLinkRule u)
          else if sublist (js ''youtube.com'') (hostname u) then
            (case mainSiteRules u of
               Some r \<Rightarrow> Inr (Some r)
             | None \<Rightarrow> Inr (regexFallback s))
          else Inr (regexFallback s))"

text \<open>\<open>try { ... } catch { ... }\<close>: whatever the body throws, the handler runs instead.\<close>

definition try_catch :: "exn + 'a \<Rightarrow> (exn \<Rightarrow> exn + 'a) \<Rightarrow> exn + 'a" where
  "try_catch body handler = (case body of Inl e \<Rightarrow> handler e | Inr r \<Rightarrow> Inr r)"

definition extractVideoId :: "url_parser \<Rightarrow> jsstring \<Rightarrow> exn + jsstring option" where
  "extractVideoId parse s =
     try_catch (extractVideoId_body parse s) (\<lambda>e. Inr (regexFallback s))"

section \<open>The service: environment, state and responses\<close>

text \<open>JSON values of the response bodies; an object keeps its keys in insertion order.\<close>

datatype json = JNull | JBool bool | JNum nat | JStr jsstring | JArr "json list"
  | JObj "(string \<times> json) list"

record response =
  status :: nat
  body :: "(string \<times> json) list"

text \<open>What the service reads of a \<open>fetch\<close> response: \<open>r.ok\<close>, \<open>r.status\<close> and the body
  \<open>await r.text()\<close>.\<close>

record http =
  r_ok :: bool
  r_status :: nat
  r_text :: jsstring

text \<open>The request: the \<open>Authorization\<close> header and the query parameters \<open>url\<close> and
  \<open>debug\<close>, each absent or a string.\<close>

record request =
  authorization :: "jsstring option"
  q_url :: "jsstring option"
  q_debug :: "jsstring option"

text \<open>
  Everything outside the repository is a field of the environment: the configuration
  (\<open>process.env\<close>), the platform (\<open>new URL\<close>, \<open>encodeURIComponent\<close>, \<open>tmpdir()\<close>, the random
  hex strings of \<open>crypto.randomBytes\<close>, one field for each place that draws one, base64
  decoding, and whether \<open>writeFile\<close> and \<open>rm\<close> fail) and the collaborators: the timed-text
  endpoint (a \<open>fetch\<close> of a URL rejects, \<open>Inl\<close>, or gives a response), the transcription
  endpoint (the same, for uploaded audio bytes) and the yt-dlp subprocess, which maps its
  arguments and the files on disk to its error, if any, and the files it leaves.
  The headers of the timed-text queries are the same for every query of a video and
  are left out; \<open>join(tmpdir(), name)\<close> is the directory, a slash and the name.
\<close>

type_synonym filesystem = "jsstring \<rightharpoonup> jsstring"

record env =
  TOKEN :: jsstring
  OPENAI_KEY :: jsstring
  YTDLP_COOKIES_B64 :: jsstring
  tmpdir :: jsstring
  rand_subs :: jsstring
  rand_cookies1 :: jsstring
  rand_audio :: jsstring
  rand_cookies2 :: jsstring
  parseURL :: url_parser
  encodeURIComponent :: "jsstring \<Rightarrow> exn + jsstring"
  base64decode :: "jsstring \<Rightarrow> jsstring"
  writeFile_fails :: "jsstring \<Rightarrow> exn option"
  rm_fails :: "jsstring \<Rightarrow> bool"
  fetch_timedtext :: "jsstring \<Rightarrow> exn + http"
  fetch_transcription :: "jsstring \<Rightarrow> exn + http"
  ytdlp :: "jsstring list \<Rightarrow> filesystem \<Rightarrow> exn option \<times> filesystem"

text \<open>The state a request works on: the files on disk, and the log of the calls made to
  the collaborators and to the identifier extractor, in order.\<close>

datatype call = CallExtract jsstring | CallFetch jsstring | CallExec "jsstring list"
  | CallUpload jsstring

record state =
  files :: filesystem
  calls :: "call list"

subsection \<open>Small helpers\<close>

text \<open>\<open>a || b\<close> on strings, and the two ways the service prints a caught error:
  \<open>e?.stderr || String(e)\<close> and \<open>String(e?.stderr || e?.message || e)\<close>.\<close>

definition orElse :: "jsstring \<Rightarrow> jsstring \<Rightarrow> jsstring" where
  "orElse a b = (if a \<noteq> [] then a else b)"

definition errText :: "exn \<Rightarrow> jsstring" where
  "errText e = orElse (e_stderr e) (e_string e)"

definition errDetail :: "exn \<Rightarrow> jsstring" where
  "errDetail e = orElse (e_stderr e) (orElse (e_message e) (e_string e))"

text \<open>A number in a template literal: its decimal digits.\<close>

function showNat :: "nat \<Rightarrow> jsstring" where
  "showNat n = (if n < 10 then [48 + n] else showNat (n div 10) @ [48 + n mod 10])"
  by pat_completeness auto
termination
  by (relation "measure id") auto

declare showNat.simps [simp del]

text \<open>\<open>sh(file, args)\<close> (always called with \<open>yt-dlp\<close>): the promise rejects with the error
  of the subprocess, if any; the files are what the subprocess left.\<close>

definition sh :: "env \<Rightarrow> jsstring list \<Rightarrow> state \<Rightarrow> exn option \<times> state" where
  "sh env args st =
     (case ytdlp env args (files st) of
        (err, fs) \<Rightarrow> (err, \<lparr>files = fs, calls = calls st @ [CallExec args]\<rparr>))"

definition fetchText :: "env \<Rightarrow> jsstring \<Rightarrow> state \<Rightarrow> (exn + http) \<times> state" where
  "fetchText env u st = (fetch_timedtext env u, st\<lparr>calls := calls st @ [CallFetch u]\<rparr>)"

text \<open>\<open>exists(p)\<close> reads the file and catches the failure.\<close>

definition enoent :: "jsstring \<Rightarrow> exn" where
  "enoent p = \<lparr>e_stderr = [],
     e_message = js ''ENOENT: no such file or directory, open '' @ p,
     e_string = js ''Error: ENOENT: no such file or directory, open '' @ p\<rparr>"

definition readFile :: "state \<Rightarrow> jsstring \<Rightarrow> exn + jsstring" where
  "readFile st p = (case files st p of None \<Rightarrow> Inl (enoent p) | Some c \<Rightarrow> Inr c)"

definition exists :: "state \<Rightarrow> jsstring \<Rightarrow> bool" where
  "exists st p = (case readFile st p of Inl e \<Rightarrow> False | Inr c \<Rightarrow> True)"

text \<open>\<open>rm(p, { force: true }).catch(() => {})\<close>: a failure is swallowed and leaves the file.\<close>

definition rm_force :: "env \<Rightarrow> jsstring \<Rightarrow> state \<Rightarrow> state" where
  "rm_force env p st = (if rm_fails env p then st else st\<lparr>files := (files st)(p := None)\<rparr>)"

definition safeCleanup :: "env \<Rightarrow> jsstring list \<Rightarrow> state \<Rightarrow> state" where
  "safeCleanup env paths st = fold (rm_force env) paths st"

text \<open>\<open>writeCookiesFileFromEnv()\<close>: the empty path when no cookies are configured; the
  random hex string is the one drawn at this call.\<close>

definition writeCookiesFileFromEnv :: "env \<Rightarrow> jsstring \<Rightarrow> state \<Rightarrow> (exn + jsstring) \<times> state" where
  "writeCookiesFileFromEnv env rnd st =
     (if YTDLP_COOKIES_B64 env = [] then (Inr [], st)
      else
        let path = tmpdir env @ js ''/cookies-'' @ rnd @ js ''.txt'' in
        (case writeFile_fails env path of
           Some e \<Rightarrow> (Inl e, st)
         | None \<Rightarrow>
             (Inr path,
              st\<lparr>files := (files st)(path \<mapsto> base64decode env (YTDLP_COOKIES_B64 env))\<rparr>)))"

subsection \<open>Captions-API client (\<open>tryTimedText\<close>)\<close>

text \<open>The object \<open>tryTimedText\<close> returns; \<open>reasons\<close> is absent from the object of a success.\<close>

record timedtext =
  tt_text :: jsstring
  tt_source :: jsstring
  tt_reasons :: "jsstring list option"

definition langOrAny :: "jsstring \<Rightarrow> jsstring" where
  "langOrAny lang = orElse lang (js ''any'')"

text \<open>\<open>lang ? `${base}&lang=${encodeURIComponent(lang)}${kind}` : `${base}${kind}`\<close>, where
  \<open>kind\<close> is empty or \<open>&kind=asr\<close>.\<close>

definition queryUrl :: "env \<Rightarrow> jsstring \<Rightarrow> jsstring \<Rightarrow> jsstring \<Rightarrow> exn + jsstring" where
  "queryUrl env base lang kind =
     (if lang \<noteq> [] then
        (case encodeURIComponent env lang of
           Inl e \<Rightarrow> Inl e
         | Inr l \<Rightarrow> Inr (base @ js ''&lang='' @ l @ kind))
      else Inr (base @ kind))"

text \<open>
  One query of the loop body, which the source writes out twice (uploaded and ASR):
  fetch; if \<open>r.ok && r.text.includes("WEBVTT")\<close>, normalize and return the result when it is
  longer than 30, else go on with the reasons unchanged; otherwise push a reason and go
  on. \<open>Inr (Inl result)\<close> is the return, \<open>Inr (Inr reasons)\<close> the continuation, \<open>Inl e\<close>
  what the awaited \<open>fetchText\<close> (or \<open>encodeURIComponent\<close>) threw.
\<close>

definition attempt ::
  "(jsstring \<Rightarrow> jsstring) \<Rightarrow> env \<Rightarrow> jsstring \<Rightarrow> jsstring \<Rightarrow> jsstring \<Rightarrow> jsstring \<Rightarrow> jsstring
     \<Rightarrow> jsstring list \<Rightarrow> state \<Rightarrow> (exn + (timedtext + jsstring list)) \<times> state" where
  "attempt norm env base lang kind tag label reasons st =
     (case queryUrl env base lang kind of
        Inl e \<Rightarrow> (Inl e, st)
      | Inr u \<Rightarrow>
          (case fetchText env u st of
             (Inl e, st1) \<Rightarrow> (Inl e, st1)
           | (Inr r, st1) \<Rightarrow>
               if r_ok r \<and> sublist (js ''WEBVTT'') (r_text r) then
                 (let t = norm (r_text r) in
                  if 30 < length t then
                    (Inr (Inl \<lparr>tt_text = t, tt_source = tag @ langOrAny lang @ js '')'',
                               tt_reasons = None\<rparr>), st1)
                  else (Inr (Inr reasons), st1))
               else
                 (Inr (Inr (reasons @ [label @ langOrAny lang @ js '' -> '' @ showNat (r_status r)])),
                  st1)))"

fun tryTimedTextLoop ::
  "(jsstring \<Rightarrow> jsstring) \<Rightarrow> env \<Rightarrow> jsstring \<Rightarrow> jsstring list \<Rightarrow> jsstring list \<Rightarrow> state
     \<Rightarrow> (exn + timedtext) \<times> state" where
  "tryTimedTextLoop norm env base [] reasons st =
     (Inr \<lparr>tt_text = [], tt_source = [], tt_reasons = Some reasons\<rparr>, st)"
| "tryTimedTextLoop norm env base (lang # langs) reasons st =
     (case attempt norm env base lang [] (js ''timedtext('') (js ''timedtext uploaded '') reasons st of
        (Inl e, st1) \<Rightarrow> (Inl e, st1)
      | (Inr (Inl found), st1) \<Rightarrow> (Inr found, st1)
      | (Inr (Inr reasons1), st1) \<Rightarrow>
          (case attempt norm env base lang (js ''&kind=asr'') (js ''timedtext-asr('')
                  (js ''timedtext asr '') reasons1 st1 of
             (Inl e, st2) \<Rightarrow> (Inl e, st2)
           | (Inr (Inl found), st2) \<Rightarrow> (Inr found, st2)
           | (Inr (Inr reasons2), st2) \<Rightarrow> tryTimedTextLoop norm env base langs reasons2 st2))"

definition timedtextBase :: "jsstring \<Rightarrow> jsstring" where
  "timedtextBase videoId = js ''https://www.youtube.com/api/timedtext?v='' @ videoId @ js ''&fmt=vtt''"

text \<open>part_001: the list \<open>LANGS\<close> and the normalizer \<open>vttToText\<close>.\<close>

definition LANGS :: "jsstring list" where
  "LANGS = map js [''en'', ''en-US'', ''de'', ''fr'', ''es'', ''pt'', ''it'', ''pl'', ''nl'', ''sv'',
     ''no'', ''da'', ''fi'', ''ar'', ''tr'', ''fa'', ''ur'', ''hi'', ''bn'', ''ru'', ''uk'', ''cs'', ''ro'',
     ''el'', ''he'', ''ja'', ''ko'', ''zh'', ''zh-Hans'', ''zh-Hant'', '''']"

definition tryTimedText :: "env \<Rightarrow> jsstring \<Rightarrow> state \<Rightarrow> (exn + timedtext) \<times> state" where
  "tryTimedText env videoId st =
     tryTimedTextLoop vttToText env (timedtextBase videoId) LANGS [] st"

text \<open>part_002: a shorter default list, and \<open>vttToText(r.text).trim()\<close>.\<close>

definition langs_v2 :: "jsstring list" where
  "langs_v2 = map js [''en'', ''en-US'', ''de'', ''fr'', ''es'', ''ar'', ''tr'', ''pt'', ''hi'', ''ru'', '''']"

definition tryTimedText_v2 :: "env \<Rightarrow> jsstring \<Rightarrow> state \<Rightarrow> (exn + timedtext) \<times> state" where
  "tryTimedText_v2 env videoId st =
     tryTimedTextLoop (\<lambda>b. trim (vttToText_plain b)) env (timedtextBase videoId) langs_v2 [] st"


section \<open>The handler of \<open>GET /transcript\<close>\<close>

subsection \<open>Responses\<close>

definition unauthorized :: response where
  "unauthorized = \<lparr>status = 401, body = [(''error'', JStr (js ''Unauthorized''))]\<rparr>"

definition missingUrl :: response where
  "missingUrl = \<lparr>status = 400, body = [(''error'', JStr (js ''Missing ?url=YOUTUBE_URL''))]\<rparr>"

definition invalidUrl :: response where
  "invalidUrl = \<lparr>status = 400, body = [(''error'', JStr (js ''Invalid YouTube URL''))]\<rparr>"

text \<open>\<open>res.json({ text, source })\<close>, with the default status 200.\<close>

definition success :: "jsstring \<Rightarrow> jsstring \<Rightarrow> response" where
  "success t s = \<lparr>status = 200, body = [(''text'', JStr t), (''source'', JStr s)]\<rparr>"

text \<open>\<open>if (debug) resp["debug"] = diag\<close>, where \<open>diag = { tried: [...] }\<close>.\<close>

definition debugField :: "bool \<Rightarrow> json list \<Rightarrow> (string \<times> json) list" where
  "debugField debug tried = (if debug then [(''debug'', JObj [(''tried'', JArr tried)])] else [])"

definition noCaptions :: "bool \<Rightarrow> json list \<Rightarrow> response" where
  "noCaptions debug tried =
     \<lparr>status = 422,
      body = (''error'', JStr (js ''No captions available for this video.'')) # debugField debug tried\<rparr>"

definition toolFailed :: "exn \<Rightarrow> bool \<Rightarrow> json list \<Rightarrow> response" where
  "toolFailed e debug tried =
     \<lparr>status = 500,
      body = [(''error'', JStr (js ''yt-dlp failed'')), (''detail'', JStr (errDetail e))]
             @ debugField debug tried\<rparr>"

text \<open>\<open>diag.tried.push(entry)\<close> under \<open>if (debug)\<close>.\<close>

definition push :: "bool \<Rightarrow> json list \<Rightarrow> json \<Rightarrow> json list" where
  "push debug tried entry = (if debug then tried @ [entry] else tried)"

definition jsonErr :: "jsstring option \<Rightarrow> json" where
  "jsonErr err = (case err of None \<Rightarrow> JNull | Some m \<Rightarrow> JStr m)"

text \<open>The header check: \<open>if (TOKEN) { header = req.get("Authorization") || ""; if (header
  !== `Bearer ${TOKEN}`) ... }\<close>.\<close>

definition authHeader :: "request \<Rightarrow> jsstring" where
  "authHeader req = (case authorization req of None \<Rightarrow> [] | Some h \<Rightarrow> h)"

definition authFails :: "env \<Rightarrow> request \<Rightarrow> bool" where
  "authFails env req = (TOKEN env \<noteq> [] \<and> authHeader req \<noteq> js ''Bearer '' @ TOKEN env)"

subsection \<open>part_001: timed text, yt-dlp subtitles with cookies, Whisper\<close>

text \<open>
  A stage returns what the \<open>try\<close> block would: a response (\<open>Inr\<close>) or a thrown value
  (\<open>Inl\<close>), with the diagnostic trail \<open>diag.tried\<close> as it stands at that point and the
  state. The stages are written from the last to the first.
\<close>

type_synonym outcome = "(exn + response) \<times> json list \<times> state"

text \<open>The upload to the transcription endpoint: \<open>fetch(..., { method: "POST", ... })\<close> and
  \<open>await resp.text()\<close>.\<close>

definition upload :: "env \<Rightarrow> jsstring \<Rightarrow> state \<Rightarrow> (exn + http) \<times> state" where
  "upload env file st = (fetch_transcription env file, st\<lparr>calls := calls st @ [CallUpload file]\<rparr>)"

text \<open>Lines 229-255: the inner \<open>try\<close> around reading the audio, removing it and the upload.
  It returns the success response or the trail to go on with.\<close>

definition transcribe :: "env \<Rightarrow> jsstring \<Rightarrow> bool \<Rightarrow> json list \<Rightarrow> state
    \<Rightarrow> (response + json list) \<times> state" where
  "transcribe env audioPath debug tried st =
     (case readFile st audioPath of
        Inl e \<Rightarrow>
          (Inr (push debug tried (JObj [(''step'', JStr (js ''whisper-ex'')),
                  (''err'', JStr (orElse (e_message e) (e_string e)))])), st)
      | Inr file \<Rightarrow>
          (let st1 = rm_force env audioPath st in
           case upload env file st1 of
             (Inl e, st2) \<Rightarrow>
               (Inr (push debug tried (JObj [(''step'', JStr (js ''whisper-ex'')),
                       (''err'', JStr (orElse (e_message e) (e_string e)))])), st2)
           | (Inr resp, st2) \<Rightarrow>
               if r_ok resp \<and> r_text resp \<noteq> [] \<and> 30 < length (trim (r_text resp)) then
                 (Inl (success (trim (r_text resp)) (js ''whisper'')), st2)
               else
                 (Inr (push debug tried (JObj [(''step'', JStr (js ''whisper'')),
                         (''status'', JNum (r_status resp)),
                         (''bodyLen'', JNum (length (r_text resp)))])), st2)))"

text \<open>Lines 206-259: the Whisper fallback.\<close>

definition whisperStage :: "env \<Rightarrow> jsstring \<Rightarrow> bool \<Rightarrow> json list \<Rightarrow> state \<Rightarrow> outcome" where
  "whisperStage env url debug tried st =
     (if OPENAI_KEY env = [] then (Inr (noCaptions debug tried), tried, st)
      else
        let audioPath = tmpdir env @ js ''/yt-'' @ rand_audio env @ js ''.mp3'' in
        (case writeCookiesFileFromEnv env (rand_cookies2 env) st of
           (Inl e, st1) \<Rightarrow> (Inl e, tried, st1)
         | (Inr cookiesPath2, st1) \<Rightarrow>
             (let dlArgs = [url, js ''-x'', js ''--audio-format'', js ''mp3'', js ''--no-warnings'',
                            js ''-o'', audioPath]
                           @ (if cookiesPath2 \<noteq> [] then [js ''--cookies'', cookiesPath2] else [])
              in
              case sh env dlArgs st1 of
                (err, st2) \<Rightarrow>
                  (let dlErr = map_option errText err;
                       st3 = (if cookiesPath2 \<noteq> [] then rm_force env cookiesPath2 st2 else st2);
                       tried1 = push debug tried (JObj [(''step'', JStr (js ''yt-dlp audio'')),
                                  (''usedCookies'', JBool (cookiesPath2 \<noteq> [])),
                                  (''err'', jsonErr dlErr)])
                   in
                   if (dlErr = None \<or> dlErr = Some []) \<and> exists st3 audioPath then
                     (case transcribe env audioPath debug tried1 st3 of
                        (Inl r, st4) \<Rightarrow> (Inr r, tried1, st4)
                      | (Inr tried2, st4) \<Rightarrow> (Inr (noCaptions debug tried2), tried2, st4))
                   else (Inr (noCaptions debug tried1), tried1, st3)))))"

text \<open>Lines 174-184: the candidate subtitle files, in the order they are probed.\<close>

definition candidates :: "jsstring \<Rightarrow> jsstring list" where
  "candidates outBase =
     map (\<lambda>l. outBase @ js ''.'' @ js l @ js ''.vtt'')
       [''en'', ''en-US'', ''de'', ''fr'', ''es'', ''pt'', ''it'', ''pl'', ''nl'', ''sv'', ''no'', ''da'',
        ''fi'', ''ar'', ''tr'', ''fa'', ''ur'', ''hi'', ''bn'', ''ru'', ''uk'', ''cs'', ''ro'', ''el'',
        ''he'', ''ja'', ''ko'', ''zh'', ''zh-Hans'', ''zh-Hant'']
     @ [outBase @ js ''.vtt'']"

text \<open>Lines 154-204: yt-dlp subtitles; then the Whisper fallback.\<close>

definition subtitleStage :: "env \<Rightarrow> jsstring \<Rightarrow> bool \<Rightarrow> json list \<Rightarrow> state \<Rightarrow> outcome" where
  "subtitleStage env url debug tried st =
     (let outBase = tmpdir env @ js ''/yt-'' @ rand_subs env in
      case writeCookiesFileFromEnv env (rand_cookies1 env) st of
        (Inl e, st1) \<Rightarrow> (Inl e, tried, st1)
      | (Inr cookiesPath, st1) \<Rightarrow>
          (let args = [url, js ''--skip-download'', js ''--no-warnings'', js ''--write-auto-sub'',
                       js ''--write-sub'', js ''--sub-format'', js ''vtt'', js ''--sub-langs'',
                       js ''all,-live_chat'', js ''-o'', outBase @ js ''.%(ext)s'']
                      @ (if cookiesPath \<noteq> [] then [js ''--cookies'', cookiesPath] else [])
           in
           case sh env args st1 of
             (err, st2) \<Rightarrow>
               (let ytdlpErr = map_option errText err;
                    tried1 = push debug tried (JObj [(''step'', JStr (js ''yt-dlp subs'')),
                               (''usedCookies'', JBool (cookiesPath \<noteq> [])),
                               (''err'', jsonErr ytdlpErr)]);
                    vttPath = List.find (exists st2) (candidates outBase);
                    st3 = (if cookiesPath \<noteq> [] then rm_force env cookiesPath st2 else st2)
                in
                case vttPath of
                  Some p \<Rightarrow>
                    (case readFile st3 p of
                       Inl e \<Rightarrow> (Inl e, tried1, st3)
                     | Inr vtt \<Rightarrow>
                         (let text = vttToText vtt;
                              st4 = safeCleanup env (candidates outBase) st3
                          in
                          if text \<noteq> [] \<and> 30 < length text then
                            (Inr (success text (js ''yt-dlp'')), tried1, st4)
                          else whisperStage env url debug tried1 st4))
                | None \<Rightarrow>
                    whisperStage env url debug tried1 (safeCleanup env (candidates outBase) st3))))"

text \<open>Lines 147-152: the timed-text stage, the first of the \<open>try\<close> block.\<close>

definition jsonReasons :: "jsstring list option \<Rightarrow> json" where
  "jsonReasons rs = (case rs of None \<Rightarrow> JNull | Some l \<Rightarrow> JArr (map JStr l))"

definition captionStage :: "env \<Rightarrow> jsstring \<Rightarrow> jsstring \<Rightarrow> bool \<Rightarrow> state \<Rightarrow> outcome" where
  "captionStage env url videoId debug st =
     (case tryTimedText env videoId st of
        (Inl e, st1) \<Rightarrow> (Inl e, [], st1)
      | (Inr tt, st1) \<Rightarrow>
          if tt_text tt \<noteq> [] then (Inr (success (tt_text tt) (tt_source tt)), [], st1)
          else
            subtitleStage env url debug
              (push debug [] (JObj [(''step'', JStr (js ''timedtext'')),
                 (''reasons'', jsonReasons (tt_reasons tt))])) st1)"

text \<open>
  Lines 128-266. The result is the response sent, or \<open>Inl\<close> for a value thrown outside the
  \<open>try\<close> block (the call of \<open>extractVideoId\<close> stands before it). The \<open>catch\<close> turns
  whatever the stages throw into the 500 response.
\<close>

definition transcript :: "env \<Rightarrow> request \<Rightarrow> state \<Rightarrow> (exn + response) \<times> state" where
  "transcript env req st =
     (if authFails env req then (Inr unauthorized, st)
      else
        (case q_url req of
           None \<Rightarrow> (Inr missingUrl, st)
         | Some url \<Rightarrow>
             if url = [] then (Inr missingUrl, st)
             else
               (let debug = (q_debug req = Some (js ''1''));
                    st0 = st\<lparr>calls := calls st @ [CallExtract url]\<rparr>
                in
                case extractVideoId (parseURL env) url of
                  Inl e \<Rightarrow> (Inl e, st0)
                | Inr None \<Rightarrow> (Inr invalidUrl, st0)
                | Inr (Some videoId) \<Rightarrow>
                    if videoId = [] then (Inr invalidUrl, st0)
                    else
                      (case captionStage env url videoId debug st0 of
                         (Inl e, tried, st1) \<Rightarrow> (Inr (toolFailed e debug tried), st1)
                       | (Inr r, tried, st1) \<Rightarrow> (Inr r, st1)))))"

subsection \<open>part_002: timed text, then yt-dlp once per language\<close>

definition candidates_v2 :: "jsstring \<Rightarrow> jsstring list" where
  "candidates_v2 outBase =
     map (\<lambda>l. outBase @ js ''.'' @ js l @ js ''.vtt'')
       [''en'', ''en-US'', ''de'', ''fr'', ''es'', ''ar'', ''tr'', ''pt'', ''hi'', ''ru'']
     @ [outBase @ js ''.vtt'']"

text \<open>Lines 139-173: the loop over the languages; it stops at the first language after
  which a candidate file exists.\<close>

fun ytdlpLoop_v2 :: "env \<Rightarrow> jsstring \<Rightarrow> jsstring \<Rightarrow> bool \<Rightarrow> jsstring list \<Rightarrow> json list \<Rightarrow> state
    \<Rightarrow> jsstring option \<times> json list \<times> state" where
  "ytdlpLoop_v2 env url outBase debug [] tried st = (None, tried, st)"
| "ytdlpLoop_v2 env url outBase debug (lang # langs) tried st =
     (let args = [url, js ''--skip-download'', js ''--no-warnings'', js ''--write-auto-sub'',
                  js ''--write-sub'', js ''--sub-format'', js ''vtt'', js ''--sub-langs'',
                  orElse lang (js ''all''), js ''-o'', outBase @ js ''.%(ext)s'']
      in
      case sh env args st of
        (err, st1) \<Rightarrow>
          (let tried1 = push debug tried (JObj [(''step'', JStr (js ''yt-dlp '' @ langOrAny lang)),
                          (''err'', jsonErr (map_option errText err))])
           in
           case List.find (exists st1) (candidates_v2 outBase) of
             Some p \<Rightarrow> (Some p, tried1, st1)
           | None \<Rightarrow> ytdlpLoop_v2 env url outBase debug langs tried1 st1))"

text \<open>Lines 132-196: the yt-dlp stage. The 422 for a short text carries
  \<open>{ ...diag, finalLength: text.length }\<close> under \<open>debug\<close>.\<close>

definition tooShort_v2 :: "bool \<Rightarrow> json list \<Rightarrow> nat \<Rightarrow> response" where
  "tooShort_v2 debug tried n =
     \<lparr>status = 422,
      body = (''error'', JStr (js ''Transcript too short or empty.''))
             # (if debug then [(''debug'', JObj [(''tried'', JArr tried), (''finalLength'', JNum n)])]
                else [])\<rparr>"

definition ytdlpStage_v2 :: "env \<Rightarrow> jsstring \<Rightarrow> bool \<Rightarrow> json list \<Rightarrow> state \<Rightarrow> outcome" where
  "ytdlpStage_v2 env url debug tried st =
     (let outBase = tmpdir env @ js ''/yt-'' @ rand_subs env in
      case ytdlpLoop_v2 env url outBase debug langs_v2 tried st of
        (None, tried1, st1) \<Rightarrow> (Inr (noCaptions debug tried1), tried1, st1)
      | (Some vttPath, tried1, st1) \<Rightarrow>
          (case readFile st1 vttPath of
             Inl e \<Rightarrow> (Inl e, tried1, st1)
           | Inr vtt \<Rightarrow>
               (let text = trim (vttToText_plain vtt);
                    st2 = safeCleanup env (candidates_v2 outBase) st1
                in
                if text = [] \<or> length text < 30 then
                  (Inr (tooShort_v2 debug tried1 (length text)), tried1, st2)
                else (Inr (success text (js ''yt-dlp'')), tried1, st2))))"

definition captionStage_v2 :: "env \<Rightarrow> jsstring \<Rightarrow> jsstring \<Rightarrow> bool \<Rightarrow> state \<Rightarrow> outcome" where
  "captionStage_v2 env url videoId debug st =
     (case tryTimedText_v2 env videoId st of
        (Inl e, st1) \<Rightarrow> (Inl e, [], st1)
      | (Inr tt, st1) \<Rightarrow>
          if tt_text tt \<noteq> [] then (Inr (success (tt_text tt) (tt_source tt)), [], st1)
          else
            ytdlpStage_v2 env url debug
              (push debug [] (JObj [(''step'', JStr (js ''timedtext'')),
                 (''reasons'', jsonReasons (tt_reasons tt))])) st1)"

definition transcript_v2 :: "env \<Rightarrow> request \<Rightarrow> state \<Rightarrow> (exn + response) \<times> state" where
  "transcript_v2 env req st =
     (if authFails env req then (Inr unauthorized, st)
      else
        (case q_url req of
           None \<Rightarrow> (Inr missingUrl, st)
         | Some url \<Rightarrow>
             if url = [] then (Inr missingUrl, st)
             else
               (let debug = (q_debug req = Some (js ''1''));
                    st0 = st\<lparr>calls := calls st @ [CallExtract url]\<rparr>
                in
                case extractVideoId (parseURL env) url of
                  Inl e \<Rightarrow> (Inl e, st0)
                | Inr None \<Rightarrow> (Inr invalidUrl, st0)
                | Inr (Some videoId) \<Rightarrow>
                    if videoId = [] then (Inr invalidUrl, st0)
                    else
                      (case captionStage_v2 env url videoId debug st0 of
                         (Inl e, tried, st1) \<Rightarrow> (Inr (toolFailed e debug tried), st1)
                       | (Inr r, tried, st1) \<Rightarrow> (Inr r, st1)))))"

subsection \<open>src/server.js: yt-dlp only\<close>

definition candidates_server :: "jsstring \<Rightarrow> jsstring list" where
  "candidates_server outBase =
     [outBase @ js ''.en.vtt'', outBase @ js ''.en-US.vtt'', outBase @ js ''.vtt'']"

definition tryLangs :: "jsstring list" where
  "tryLangs = [js ''en'', js ''en-US'', []]"

text \<open>Lines 60-85: errors of yt-dlp are ignored (\<open>.catch(() => {})\<close>).\<close>

fun ytdlpLoop_server :: "env \<Rightarrow> jsstring \<Rightarrow> jsstring \<Rightarrow> jsstring list \<Rightarrow> state
    \<Rightarrow> jsstring option \<times> state" where
  "ytdlpLoop_server env url outBase [] st = (None, st)"
| "ytdlpLoop_server env url outBase (lang # langs) st =
     (let args = [url, js ''--skip-download'', js ''--no-warnings'', js ''--write-auto-sub'',
                  js ''--write-sub'', js ''--sub-format'', js ''vtt'', js ''-o'',
                  outBase @ js ''.%(ext)s'']
                 @ (if lang \<noteq> [] then [js ''--sub-langs'', lang] else [])
      in
      case sh env args st of
        (err, st1) \<Rightarrow>
          (case List.find (exists st1) (candidates_server outBase) of
             Some p \<Rightarrow> (Some p, st1)
           | None \<Rightarrow> ytdlpLoop_server env url outBase langs st1))"

text \<open>Lines 43-103. The success response is \<open>res.json({ text })\<close>; the responses carry no
  debug field.\<close>

definition transcript_server :: "env \<Rightarrow> request \<Rightarrow> state \<Rightarrow> (exn + response) \<times> state" where
  "transcript_server env req st =
     (if authFails env req then (Inr unauthorized, st)
      else
        (case q_url req of
           None \<Rightarrow> (Inr missingUrl, st)
         | Some url \<Rightarrow>
             if url = [] then (Inr missingUrl, st)
             else
               (let outBase = tmpdir env @ js ''/yt-'' @ rand_subs env in
                case ytdlpLoop_server env url outBase tryLangs st of
                  (None, st1) \<Rightarrow> (Inr (noCaptions False []), st1)
                | (Some vttPath, st1) \<Rightarrow>
                    (case readFile st1 vttPath of
                       Inl e \<Rightarrow> (Inr (toolFailed e False []), st1)
                     | Inr vtt \<Rightarrow>
                         (let text = vttToText_server vtt;
                              st2 = safeCleanup env (candidates_server outBase) st1
                          in
                          if text = [] \<or> length text < 30 then
                            (Inr \<lparr>status = 422,
                                  body = [(''error'', JStr (js ''Transcript too short or empty.''))]\<rparr>,
                             st2)
                          else (Inr \<lparr>status = 200, body = [(''text'', JStr text)]\<rparr>, st2))))))"


section \<open>Concrete environments for the examples\<close>

text \<open>
  The values at which the theorems below are evaluated. \<open>quietEnv\<close> has nothing configured:
  the platform's \<open>new URL\<close> parses the one short link used in the examples (and
  throws on anything else), \<open>encodeURIComponent\<close> leaves the language tags as they are,
  file operations succeed, the timed-text endpoint answers 404, the transcription
  endpoint answers 401 and yt-dlp writes nothing. Each example changes the fields it
  is about.
\<close>

definition networkError :: exn where
  "networkError = \<lparr>e_stderr = [], e_message = js ''fetch failed'',
     e_string = js ''TypeError: fetch failed''\<rparr>"

definition invalidURL :: exn where
  "invalidURL = \<lparr>e_stderr = [], e_message = js ''Invalid URL'',
     e_string = js ''TypeError: Invalid URL''\<rparr>"

definition exitCode1 :: exn where
  "exitCode1 = \<lparr>e_stderr = js ''ERROR: unable to download video data'',
     e_message = js ''Command failed: yt-dlp'', e_string = js ''Error: Command failed: yt-dlp''\<rparr>"

definition rickUrl :: jsstring where
  "rickUrl = js ''https://youtu.be/dQw4w9WgXcQ''"

definition quietEnv :: env where
  "quietEnv = \<lparr>TOKEN = [], OPENAI_KEY = [], YTDLP_COOKIES_B64 = [], tmpdir = js ''/tmp'',
     rand_subs = js ''0a1b2c3d4e5f'', rand_cookies1 = js ''a1b2c3d4'',
     rand_audio = js ''f0e1d2c3b4a5'', rand_cookies2 = js ''d4c3b2a1'',
     parseURL = (\<lambda>s. if s = js ''https://youtu.be/dQw4w9WgXcQ''
                      then Inr \<lparr>hostname = js ''youtu.be'', pathname = js ''/dQw4w9WgXcQ'',
                                searchParams = []\<rparr>
                      else Inl invalidURL),
     encodeURIComponent = Inr,
     base64decode = (\<lambda>b. b),
     writeFile_fails = (\<lambda>p. None),
     rm_fails = (\<lambda>p. False),
     fetch_timedtext = (\<lambda>u. Inr \<lparr>r_ok = False, r_status = 404, r_text = []\<rparr>),
     fetch_transcription = (\<lambda>b. Inr \<lparr>r_ok = False, r_status = 401, r_text = []\<rparr>),
     ytdlp = (\<lambda>args fs. (None, fs))\<rparr>"

definition emptyDisk :: state where
  "emptyDisk = \<lparr>files = Map.empty, calls = []\<rparr>"

definition requestFor :: "jsstring \<Rightarrow> request" where
  "requestFor u = \<lparr>authorization = None, q_url = Some u, q_debug = None\<rparr>"

text \<open>Two cue documents: one whose text has 49 characters, one whose text has exactly 30.\<close>

definition sampleVtt :: jsstring where
  "sampleVtt = js ''WEBVTT'' @ [10, 10] @ js ''00:00:01.000 --> 00:00:04.000'' @ [10]
     @ js ''Never gonna give you up, never gonna let you down'' @ [10]"

definition thirtyVtt :: jsstring where
  "thirtyVtt = js ''WEBVTT'' @ [10, 10] @ js ''00:00:01.000 --> 00:00:04.000'' @ [10]
     @ js ''Never gonna give you up, never'' @ [10]"

text \<open>An environment with the transcription key set, in which the audio run of yt-dlp
  (the one with \<open>-x\<close>) writes the audio file and exits with an error.\<close>

definition audioErrorEnv :: env where
  "audioErrorEnv =
     quietEnv\<lparr>OPENAI_KEY := js ''sk-test'',
       ytdlp := \<lambda>args fs. if js ''-x'' \<in> set args
                  then (Some exitCode1, fs(js ''/tmp/yt-f0e1d2c3b4a5.mp3'' \<mapsto> js ''ID3''))
                  else (None, fs)\<rparr>"


section \<open>Auxiliary notions for the proofs\<close>

text \<open>The lines \<open>vttToText\<close> keeps, before they are joined.\<close>

definition keptLines :: "jsstring \<Rightarrow> jsstring list" where
  "keptLines vtt = filter keepLine (splitOn 10 (filter (\<lambda>c. c \<noteq> 13) vtt))"

text \<open>A string whose white space is single spaces only, which is what
  \<open>replace(/\s+/g, " ")\<close> leaves, and a string with no white space at either end, which is
  what \<open>trim\<close> leaves.\<close>

definition collapsed :: "jsstring \<Rightarrow> bool" where
  "collapsed s = ((\<forall>c\<in>set s. isSpace c \<longrightarrow> c = 32) \<and> \<not> sublist [32, 32] s)"

definition trimmed :: "jsstring \<Rightarrow> bool" where
  "trimmed s = (s = [] \<or> (\<not> isSpace (hd s) \<and> \<not> isSpace (last s)))"

text \<open>
  The fallback as the words "the leftmost 11-character run of \<open>[A-Za-z0-9_-]\<close> that is
  followed by a word boundary or the end of the input" describe it, to be compared with
  \<open>regexFallback\<close>: position \<open>p\<close> is a word boundary when exactly one of the characters
  before and after it is a word character; a token stands at index \<open>i\<close> when the eleven
  characters from \<open>i\<close> are of the class and a boundary or the end follows; the leftmost
  token is the one at the first such index.
\<close>

definition boundaryAt :: "jsstring \<Rightarrow> nat \<Rightarrow> bool" where
  "boundaryAt s p =
     ((0 < p \<and> p \<le> length s \<and> isWordChar (s ! (p - 1))) \<noteq> (p < length s \<and> isWordChar (s ! p)))"

definition tokenAt :: "jsstring \<Rightarrow> nat \<Rightarrow> bool" where
  "tokenAt s i =
     (i + 11 \<le> length s \<and> list_all isIdChar (take 11 (drop i s))
      \<and> (boundaryAt s (i + 11) \<or> i + 11 = length s))"

definition leftmostToken :: "jsstring \<Rightarrow> jsstring option" where
  "leftmostToken s =
     map_option (\<lambda>i. take 11 (drop i s)) (List.find (tokenAt s) [0..<Suc (length s)])"

text \<open>When the extractor reaches the fallback: \<open>new URL\<close> threw, or the host is neither
  the short-link host nor one on which a rule of the main site returned.\<close>

definition fallbackApplies :: "url_parser \<Rightarrow> jsstring \<Rightarrow> bool" where
  "fallbackApplies parse s =
     (case parse (trim s) of
        Inl e \<Rightarrow> True
      | Inr u \<Rightarrow> hostname u \<noteq> js ''youtu.be''
          \<and> (\<not> sublist (js ''youtube.com'') (hostname u) \<or> mainSiteRules u = None))"

text \<open>What the captions-API client's loop guarantees about a non-empty result: some logged
  fetch of a URL of the endpoint gave a successful response with the signature whose
  normalized text is the result and is longer than 30.\<close>

definition acceptedBy :: "(jsstring \<Rightarrow> jsstring) \<Rightarrow> env \<Rightarrow> jsstring \<Rightarrow> state \<Rightarrow> timedtext \<Rightarrow> bool" where
  "acceptedBy norm env base st' tt =
     (\<exists>u r. prefix base u \<and> CallFetch u \<in> set (calls st') \<and> fetch_timedtext env u = Inr r
        \<and> r_ok r \<and> sublist (js ''WEBVTT'') (r_text r) \<and> 30 < length (norm (r_text r))
        \<and> tt_text tt = norm (r_text r) \<and> prefix (js ''timedtext'') (tt_source tt))"

text \<open>
  Where the text of a success response comes from. In each case the call the text comes
  from is the last one in the log of the final state.
  \<^item> From the timed-text endpoint: the last call is the fetch of the query for one of the
    languages, uploaded or ASR; its response is successful and carries the signature;
    the text is its normalized body and the source is \<open>timedtext(lang)\<close> for the uploaded
    query and \<open>timedtext-asr(lang)\<close> for the ASR query (\<open>any\<close> for the empty language).
  \<^item> From a subtitle file: the last call is a run of yt-dlp, and the text is the normalized
    content of one of the candidate paths among the files that run left.
  \<^item> From the transcription endpoint: the last call is an upload, its response is
    successful, and the text is the trimmed body.
\<close>

definition fromTimedtext ::
  "(jsstring \<Rightarrow> jsstring) \<Rightarrow> env \<Rightarrow> jsstring list \<Rightarrow> jsstring \<Rightarrow> state \<Rightarrow> jsstring \<Rightarrow> jsstring \<Rightarrow> bool" where
  "fromTimedtext norm env langs base st' t s =
     (\<exists>lang kind u r. lang \<in> set langs \<and> queryUrl env base lang kind = Inr u
        \<and> calls st' \<noteq> [] \<and> last (calls st') = CallFetch u
        \<and> fetch_timedtext env u = Inr r \<and> r_ok r \<and> sublist (js ''WEBVTT'') (r_text r)
        \<and> t = norm (r_text r)
        \<and> ((kind = [] \<and> s = js ''timedtext('' @ langOrAny lang @ js '')'')
            \<or> (kind = js ''&kind=asr'' \<and> s = js ''timedtext-asr('' @ langOrAny lang @ js '')'')))"

definition fromSubtitleFile ::
  "(jsstring \<Rightarrow> jsstring) \<Rightarrow> env \<Rightarrow> jsstring list \<Rightarrow> state \<Rightarrow> jsstring \<Rightarrow> bool" where
  "fromSubtitleFile norm env paths st' t =
     (\<exists>args fs p c. calls st' \<noteq> [] \<and> last (calls st') = CallExec args
        \<and> p \<in> set paths \<and> snd (ytdlp env args fs) p = Some c \<and> t = norm c)"

definition fromTranscription :: "env \<Rightarrow> state \<Rightarrow> jsstring \<Rightarrow> bool" where
  "fromTranscription env st' t =
     (\<exists>file resp. calls st' \<noteq> [] \<and> last (calls st') = CallUpload file
        \<and> fetch_transcription env file = Inr resp \<and> r_ok resp \<and> t = trim (r_text resp))"


section \<open>Evaluating the definitions on concrete inputs\<close>

lemma replicate_11: "replicate 11 x = [x, x, x, x, x, x, x, x, x, x, x]"
  by (simp add: numeral_eq_Suc)

lemmas js_eval = js_def isDigit_def isWordChar_def isIdChar_def isSpace_def trimStart_def
  trimEnd_def trim_def isColon_def isDot_def timestampPattern_def allDigits_def keepLine_def
  keepLine_server_def vttToText_server_def vttToText_plain_def vttToText_def
  wordBoundaryAfter_def matchHere_def nth_opt_def idCandidates_def idPattern_def
  shortLinkRule_def shortsRule_def mainSiteRules_def extractVideoId_body_def try_catch_def
  extractVideoId_def fallbackApplies_def sublist_code replicate_11 Let_def


section \<open>The normalizer applied twice\<close>


lemma splitOn_nonempty: "splitOn sep s \<noteq> []"
  by (induction s) (auto split: list.splits)

lemma splitOn_no_sep: "l \<in> set (splitOn sep s) \<Longrightarrow> sep \<notin> set l"
proof (induction s arbitrary: l)
  case Nil
  then show ?case by simp
next
  case (Cons c cs)
  then show ?case by (auto split: if_splits list.splits)
qed

lemma splitOn_subset: "l \<in> set (splitOn sep s) \<Longrightarrow> set l \<subseteq> set s"
proof (induction s arbitrary: l)
  case Nil
  then show ?case by simp
next
  case (Cons c cs)
  then show ?case by (fastforce split: if_splits list.splits)
qed

lemma splitOn_single: "sep \<notin> set s \<Longrightarrow> splitOn sep s = [s]"
  by (induction s) auto

lemma set_joinSp: "set (joinSp ls) \<subseteq> \<Union> (set ` set ls) \<union> {32}"
  by (induction ls rule: joinSp.induct) auto

lemma joinSp_Cons: "joinSp (l # ls) = (if ls = [] then l else l @ 32 # joinSp ls)"
  by (cases ls) auto

lemma prefix_before_space:
  assumes "prefix w (l @ 32 # r)" and "32 \<notin> set w"
  shows "prefix w l"
proof -
  from assms(1) have "prefix w l \<or> (\<exists>us. w = l @ us \<and> prefix us (32 # r))"
    by (simp add: prefix_append)
  then show ?thesis
  proof
    assume "prefix w l" then show ?thesis .
  next
    assume "\<exists>us. w = l @ us \<and> prefix us (32 # r)"
    then obtain us where w: "w = l @ us" and p: "prefix us (32 # r)" by blast
    from p assms(2) w have "us = []" by (cases us) auto
    with w show ?thesis by simp
  qed
qed

lemma matchSeq_before:
  "matchSeq ps (l @ x # r) \<Longrightarrow> \<forall>p\<in>set ps. \<not> p x \<Longrightarrow> matchSeq ps l"
proof (induction ps l rule: matchSeq.induct)
  case (1 s)
  then show ?case by simp
next
  case (2 p ps)
  then show ?case by simp
next
  case (3 p ps c cs)
  then show ?case by auto
qed

lemma sublist_around_space:
  assumes "sublist w (l @ 32 # r)" and "32 \<notin> set w"
  shows "sublist w l \<or> sublist w r"
proof -
  from assms(1) consider "sublist w l" | "sublist w (32 # r)"
    | w1 w2 where "w = w1 @ w2" "suffix w1 l" "prefix w2 (32 # r)"
    by (auto simp: sublist_append)
  then show ?thesis
  proof cases
    case 1
    then show ?thesis by simp
  next
    case 2
    then have "prefix w (32 # r) \<or> sublist w r" by (simp add: sublist_Cons_right)
    moreover have "prefix w (32 # r) \<Longrightarrow> w = []" using assms(2) by (cases w) auto
    ultimately show ?thesis by auto
  next
    case 3
    from 3(3) assms(2) 3(1) have "w2 = []" by (cases w2) auto
    with 3 show ?thesis by auto
  qed
qed

lemma sublist_joinSp:
  "sublist w (joinSp ls) \<Longrightarrow> 32 \<notin> set w \<Longrightarrow> w \<noteq> [] \<Longrightarrow> \<exists>l\<in>set ls. sublist w l"
proof (induction ls rule: joinSp.induct)
  case 1
  then show ?case by simp
next
  case (2 l)
  then show ?case by simp
next
  case (3 l m ls)
  from "3.prems"(1) have "sublist w (l @ 32 # joinSp (m # ls))" by simp
  then have "sublist w l \<or> sublist w (joinSp (m # ls))"
    using "3.prems"(2) by (rule sublist_around_space)
  with 3 show ?case by auto
qed

lemma not_isDigit_32: "\<not> isDigit 32"
  by (simp add: isDigit_def)

lemma timestamp_no_space: "\<forall>p\<in>set timestampPattern. \<not> p 32"
  by (simp add: timestampPattern_def isDigit_def isColon_def isDot_def)

lemma keepLine_joinSp:
  assumes "ls \<noteq> []" and "\<forall>l\<in>set ls. keepLine l"
  shows "keepLine (joinSp ls)"
proof -
  obtain l ms where ls: "ls = l # ms" using assms(1) by (cases ls) auto
  have kl: "keepLine l" using assms(2) ls by simp
  have j: "joinSp ls = (if ms = [] then l else l @ 32 # joinSp ms)"
    by (simp add: ls joinSp_Cons)
  have ne: "joinSp ls \<noteq> []" using kl j by (auto simp: keepLine_def)
  have pre: "\<not> prefix (js ''WEBVTT'') (joinSp ls)"
  proof
    assume a: "prefix (js ''WEBVTT'') (joinSp ls)"
    have "prefix (js ''WEBVTT'') l"
    proof (cases "ms = []")
      case True
      with a j show ?thesis by simp
    next
      case False
      with a j have "prefix (js ''WEBVTT'') (l @ 32 # joinSp ms)" by simp
      then show ?thesis by (rule prefix_before_space) (simp add: js_def)
    qed
    with kl show False by (simp add: keepLine_def)
  qed
  have dig: "\<not> allDigits (joinSp ls)"
  proof (cases "ms = []")
    case True
    with kl j show ?thesis by (simp add: keepLine_def)
  next
    case False
    with j show ?thesis by (simp add: allDigits_def not_isDigit_32)
  qed
  have ts: "\<not> matchSeq timestampPattern (joinSp ls)"
  proof
    assume a: "matchSeq timestampPattern (joinSp ls)"
    have "matchSeq timestampPattern l"
    proof (cases "ms = []")
      case True
      with a j show ?thesis by simp
    next
      case False
      with a j have "matchSeq timestampPattern (l @ 32 # joinSp ms)" by simp
      then show ?thesis using timestamp_no_space by (rule matchSeq_before)
    qed
    with kl show False by (simp add: keepLine_def)
  qed
  have arrow: "\<not> sublist (js ''-->'') (joinSp ls)"
  proof
    assume "sublist (js ''-->'') (joinSp ls)"
    then have "\<exists>l\<in>set ls. sublist (js ''-->'') l"
      by (rule sublist_joinSp) (simp_all add: js_def)
    with assms(2) show False by (auto simp: keepLine_def)
  qed
  from ne pre dig ts arrow show ?thesis by (simp add: keepLine_def)
qed

lemma keptLines_chars: "l \<in> set (keptLines vtt) \<Longrightarrow> 10 \<notin> set l \<and> 13 \<notin> set l"
  using splitOn_no_sep[of l 10] splitOn_subset[of l 10 "filter (\<lambda>c. c \<noteq> 13) vtt"]
  by (auto simp: keptLines_def)

lemma joinSp_keptLines_chars: "10 \<notin> set (joinSp (keptLines vtt)) \<and> 13 \<notin> set (joinSp (keptLines vtt))"
  using set_joinSp[of "keptLines vtt"] keptLines_chars[of _ vtt] by fastforce

lemma filter_no_cr: "13 \<notin> set s \<Longrightarrow> filter (\<lambda>c. c \<noteq> 13) s = s"
  by (induction s) auto

lemma keptLines_of_line:
  "10 \<notin> set y \<Longrightarrow> 13 \<notin> set y \<Longrightarrow> keptLines y = (if keepLine y then [y] else [])"
  by (simp add: keptLines_def filter_no_cr splitOn_single)

lemma keepLine_server_eq: "keepLine_server = keepLine"
  by (auto simp: fun_eq_iff keepLine_server_def keepLine_def)

lemma vttToText_plain_twice: "vttToText_plain (vttToText_plain x) = vttToText_plain x"
proof -
  let ?y = "joinSp (keptLines x)"
  have y: "vttToText_plain x = ?y" by (simp add: vttToText_plain_def keptLines_def)
  have ch: "10 \<notin> set ?y" "13 \<notin> set ?y" using joinSp_keptLines_chars[of x] by auto
  have k: "keptLines ?y = (if keepLine ?y then [?y] else [])"
    using ch by (rule keptLines_of_line)
  show ?thesis
  proof (cases "keptLines x = []")
    case True
    then have "?y = []" by simp
    then show ?thesis using k by (simp add: y vttToText_plain_def keptLines_def keepLine_def)
  next
    case False
    have "\<forall>l\<in>set (keptLines x). keepLine l" by (simp add: keptLines_def)
    with False have "keepLine ?y" by (rule keepLine_joinSp)
    with k have "keptLines ?y = [?y]" by simp
    then have "vttToText_plain ?y = ?y" by (simp add: vttToText_plain_def keptLines_def)
    then show ?thesis by (simp add: y)
  qed
qed


lemma isSpace_32: "isSpace 32"
  by (simp add: isSpace_def)

lemma collapse_hd:
  "collapse s \<noteq> [] \<Longrightarrow> hd (collapse s) = (if isSpace (hd s) then 32 else hd s)"
  by (cases s) auto

lemma collapse_Nil_iff: "collapse s = [] \<longleftrightarrow> s = []"
  by (cases s) auto

lemma dropWhile_hd: "dropWhile P s \<noteq> [] \<Longrightarrow> \<not> P (hd (dropWhile P s))"
  using hd_dropWhile by blast

lemma collapsed_collapse: "collapsed (collapse s)"
proof (induction s rule: collapse.induct)
  case 1
  then show ?case by (simp add: collapsed_def)
next
  case (2 c cs)
  show ?case
  proof (cases "isSpace c")
    case True
    let ?t = "dropWhile isSpace cs"
    from True 2 have ih: "collapsed (collapse ?t)" by simp
    have "\<not> prefix [32, 32] (32 # collapse ?t)"
    proof
      assume "prefix [32, 32] (32 # collapse ?t)"
      then have ne: "collapse ?t \<noteq> []" and h: "hd (collapse ?t) = 32" by (auto simp: prefix_def)
      from ne have tne: "?t \<noteq> []" by (simp add: collapse_Nil_iff)
      then have "\<not> isSpace (hd ?t)" by (rule dropWhile_hd)
      with ne h have "hd ?t = 32" by (simp add: collapse_hd)
      with \<open>\<not> isSpace (hd ?t)\<close> show False by (simp add: isSpace_32)
    qed
    with ih True show ?thesis by (auto simp: collapsed_def sublist_Cons_right)
  next
    case False
    with 2 have ih: "collapsed (collapse cs)" by simp
    from False have "c \<noteq> 32" using isSpace_32 by auto
    with ih False show ?thesis by (auto simp: collapsed_def sublist_Cons_right)
  qed
qed

lemma collapsed_tl: "collapsed (c # cs) \<Longrightarrow> collapsed cs"
  by (auto simp: collapsed_def sublist_Cons_right)

lemma collapse_collapsed: "collapsed s \<Longrightarrow> collapse s = s"
proof (induction s rule: collapse.induct)
  case 1
  then show ?case by simp
next
  case (2 c cs)
  have tl: "collapsed cs" using "2.prems" by (rule collapsed_tl)
  show ?case
  proof (cases "isSpace c")
    case True
    with "2.prems" have c: "c = 32" by (simp add: collapsed_def)
    have d: "dropWhile isSpace cs = cs"
    proof (cases cs)
      case Nil
      then show ?thesis by simp
    next
      case (Cons d ds)
      have "\<not> isSpace d"
      proof
        assume "isSpace d"
        with "2.prems" Cons have "d = 32" by (simp add: collapsed_def)
        with c Cons have "prefix [32, 32] (c # cs)" by simp
        then have "sublist [32, 32] (c # cs)" by (rule prefix_imp_sublist)
        with "2.prems" show False by (simp add: collapsed_def)
      qed
      with Cons show ?thesis by simp
    qed
    from True d tl 2 have "collapse cs = cs" by simp
    with True c d show ?thesis by simp
  next
    case False
    with tl 2 show ?thesis by simp
  qed
qed

lemma collapsed_sublist: "collapsed s \<Longrightarrow> sublist t s \<Longrightarrow> collapsed t"
  unfolding collapsed_def using set_mono_sublist sublist_order.order_trans by blast

lemma trimEnd_prefix: "prefix (trimEnd s) s"
proof -
  have "suffix (dropWhile isSpace (rev s)) (rev s)" by (rule suffix_dropWhile)
  then have "prefix (rev (dropWhile isSpace (rev s))) (rev (rev s))"
    by (simp only: suffix_to_prefix)
  then show ?thesis by (simp add: trimEnd_def)
qed

lemma trim_sublist: "sublist (trim s) s"
proof -
  have "sublist (trimEnd (trimStart s)) (trimStart s)"
    using trimEnd_prefix by (rule prefix_imp_sublist)
  moreover have "sublist (trimStart s) s"
    unfolding trimStart_def by (rule suffix_imp_sublist[OF suffix_dropWhile])
  ultimately show ?thesis unfolding trim_def by (rule sublist_order.order_trans)
qed

lemma trimEnd_last: "trimEnd s \<noteq> [] \<Longrightarrow> \<not> isSpace (last (trimEnd s))"
proof -
  assume a: "trimEnd s \<noteq> []"
  then have ne: "dropWhile isSpace (rev s) \<noteq> []" by (simp add: trimEnd_def)
  then have "\<not> isSpace (hd (dropWhile isSpace (rev s)))" by (rule dropWhile_hd)
  moreover from ne have "last (rev (dropWhile isSpace (rev s))) = hd (dropWhile isSpace (rev s))"
    by (simp only: last_rev)
  ultimately show ?thesis by (simp add: trimEnd_def)
qed

lemma trimmed_trim: "trimmed (trim s)"
proof (cases "trim s = []")
  case True
  then show ?thesis by (simp add: trimmed_def)
next
  case False
  let ?t = "trimStart s"
  from False have l: "\<not> isSpace (last (trim s))" unfolding trim_def by (rule trimEnd_last)
  from False have tne: "?t \<noteq> []" by (auto simp: trim_def trimEnd_def)
  then have h: "\<not> isSpace (hd ?t)" unfolding trimStart_def by (rule dropWhile_hd)
  have "prefix (trim s) ?t" unfolding trim_def by (rule trimEnd_prefix)
  with False have "hd (trim s) = hd ?t" by (auto simp: prefix_def)
  with h l False show ?thesis by (simp add: trimmed_def)
qed

lemma trim_trimmed: "trimmed s \<Longrightarrow> trim s = s"
proof (cases "s = []")
  case True
  then show ?thesis by (simp add: trim_def trimStart_def trimEnd_def)
next
  case False
  assume "trimmed s"
  with False have h: "\<not> isSpace (hd s)" and l: "\<not> isSpace (last s)" by (auto simp: trimmed_def)
  from h False have a: "trimStart s = s" by (cases s) (auto simp: trimStart_def)
  from False have "hd (rev s) = last s" by (simp add: hd_rev)
  with l have "\<not> isSpace (hd (rev s))" by simp
  moreover from False have "rev s \<noteq> []" by simp
  ultimately have "dropWhile isSpace (rev s) = rev s"
    by (cases "rev s") simp_all
  then have "trimEnd s = s" by (simp add: trimEnd_def)
  with a show ?thesis by (simp add: trim_def)
qed

lemma collapsed_space: "collapsed s \<Longrightarrow> c \<in> set s \<Longrightarrow> isSpace c \<Longrightarrow> c = 32"
  by (simp add: collapsed_def)

lemma collapsed_chars: "collapsed s \<Longrightarrow> 10 \<notin> set s \<and> 13 \<notin> set s"
proof -
  assume c: "collapsed s"
  have "isSpace 10" "isSpace 13" by (simp_all add: isSpace_def)
  with collapsed_space[OF c, of 10] collapsed_space[OF c, of 13] show ?thesis by auto
qed

lemma vttToText_normal: "collapsed (vttToText x) \<and> trimmed (vttToText x)"
  unfolding vttToText_def
  using collapsed_sublist[OF collapsed_collapse trim_sublist] trimmed_trim by blast

lemma vttToText_fixed:
  assumes "collapsed y" and "trimmed y"
  shows "vttToText y = (if keepLine y then y else [])"
proof -
  have ch: "10 \<notin> set y" "13 \<notin> set y" using collapsed_chars[OF assms(1)] by auto
  have k: "keptLines y = (if keepLine y then [y] else [])" using ch by (rule keptLines_of_line)
  have e: "trim (collapse []) = []" by (simp add: trim_def trimStart_def trimEnd_def)
  show ?thesis
    using k e collapse_collapsed[OF assms(1)] trim_trimmed[OF assms(2)]
    by (simp add: vttToText_def keptLines_def[symmetric])
qed

lemma vttToText_twice:
  "vttToText (vttToText x) = (if keepLine (vttToText x) then vttToText x else [])"
  using vttToText_normal[of x] by (simp add: vttToText_fixed)

lemma vttToText_server_plain: "vttToText_server = vttToText_plain"
  by (simp add: fun_eq_iff vttToText_server_def vttToText_plain_def keepLine_server_eq)

text \<open>
  Claim C8, as the code has it. The normalizers of server.js and part_002 (no collapsing,
  no trimming) are idempotent on every string. The normalizer of part_001 is total, and
  applying it to its own output \<open>y\<close> gives \<open>y\<close> again exactly when \<open>y\<close>, read as a single
  line, passes the line filter; when \<open>y\<close> is empty, all digits, or starts with \<open>WEBVTT\<close> or
  with a timestamp, the second application gives the empty string.
\<close>

theorem vttToText_reapplied:
  "vttToText_server (vttToText_server x) = vttToText_server x
   \<and> vttToText_plain (vttToText_plain x) = vttToText_plain x
   \<and> vttToText (vttToText x) = (if keepLine (vttToText x) then vttToText x else [])"
proof -
  have "vttToText_server (vttToText_server x) = vttToText_server x"
    by (simp add: vttToText_server_plain vttToText_plain_twice)
  then show ?thesis
    using vttToText_plain_twice[of x] vttToText_twice[of x] by simp
qed

text \<open>
  Claim C8 as stated fails for the normalizer of part_001: a cue document whose only cue
  text is the line \<open>1984\<close> followed by a space is flattened to \<open>1984\<close>, and \<open>1984\<close> is a line
  of digits, which the second application drops.
\<close>

theorem vttToText_not_idempotent:
  "vttToText (vttToText (js ''WEBVTT'' @ [10, 10] @ js ''00:00:01.000 --> 00:00:02.000'' @ [10]
        @ js ''1984 '' @ [10]))
   \<noteq> vttToText (js ''WEBVTT'' @ [10, 10] @ js ''00:00:01.000 --> 00:00:02.000'' @ [10]
        @ js ''1984 '' @ [10])"
proof -
  have a: "vttToText (js ''WEBVTT'' @ [10, 10] @ js ''00:00:01.000 --> 00:00:02.000'' @ [10]
        @ js ''1984 '' @ [10]) = js ''1984''"
    by (simp add: js_eval)
  have b: "vttToText (js ''1984'') = []"
    by (simp add: js_eval)
  show ?thesis unfolding a b by (simp add: js_def)
qed

section \<open>The identifier extractor\<close>



lemma matchSeq_replicate:
  "matchSeq (replicate n P) s \<longleftrightarrow> n \<le> length s \<and> list_all P (take n s)"
proof (induction n arbitrary: s)
  case 0
  then show ?case by simp
next
  case (Suc n)
  then show ?case by (cases s) auto
qed

lemma boundaryAt_Cons: "0 < p \<Longrightarrow> boundaryAt (c # cs) (Suc p) = boundaryAt cs p"
  by (cases p) (auto simp: boundaryAt_def)

lemma tokenAt_Cons: "tokenAt (c # cs) (Suc i) = tokenAt cs i"
proof -
  have "boundaryAt (c # cs) (Suc (i + 11)) = boundaryAt cs (i + 11)"
    by (rule boundaryAt_Cons) simp
  moreover have "Suc i + 11 = Suc (i + 11)" by simp
  ultimately show ?thesis unfolding tokenAt_def by auto
qed

lemma wordBoundaryAfter_boundaryAt:
  assumes "11 \<le> length s"
  shows "wordBoundaryAfter (s ! 10) (drop 11 s) = boundaryAt s 11"
proof (cases "drop 11 s")
  case Nil
  then have "length s = 11" using assms by simp
  then show ?thesis using Nil by (simp add: wordBoundaryAfter_def boundaryAt_def)
next
  case (Cons d ds)
  then have l: "11 < length s" by (metis drop_eq_Nil leI list.distinct(1))
  from Cons have "s ! 11 = d" by (metis Cons_nth_drop_Suc l list.inject)
  with Cons l show ?thesis by (simp add: wordBoundaryAfter_def boundaryAt_def)
qed

lemma matchHere_tokenAt: "matchHere s = (if tokenAt s 0 then Some (take 11 s) else None)"
proof (cases "11 \<le> length s")
  case True
  have "(drop 11 s = []) = (11 = length s)" using True by auto
  then show ?thesis
    using True wordBoundaryAfter_boundaryAt[OF True]
    by (auto simp: matchHere_def tokenAt_def matchSeq_replicate)
next
  case False
  then show ?thesis by (simp add: matchHere_def tokenAt_def matchSeq_replicate)
qed

lemma find_map_Suc: "List.find P (map Suc xs) = map_option Suc (List.find (\<lambda>i. P (Suc i)) xs)"
  by (induction xs) auto

lemma find_upt_Suc:
  "List.find P [0..<Suc (Suc n)] =
     (if P 0 then Some 0 else map_option Suc (List.find (\<lambda>i. P (Suc i)) [0..<Suc n]))"
proof -
  have "[0..<Suc (Suc n)] = 0 # map Suc [0..<Suc n]"
    by (metis map_Suc_upt upt_conv_Cons zero_less_Suc)
  then show ?thesis by (simp only: find.simps find_map_Suc)
qed

lemma tokenAt_Nil: "\<not> tokenAt [] i"
  by (simp add: tokenAt_def)

lemma regexFallback_leftmost: "regexFallback s = leftmostToken s"
proof (induction s)
  case Nil
  then show ?case by (simp add: leftmostToken_def tokenAt_Nil)
next
  case (Cons c cs)
  have "leftmostToken (c # cs) =
      (if tokenAt (c # cs) 0 then Some (take 11 (c # cs)) else leftmostToken cs)"
    by (simp add: leftmostToken_def find_upt_Suc tokenAt_Cons option.map_comp comp_def del: upt_Suc)
  with Cons show ?case by (simp add: matchHere_tokenAt)
qed

lemma leftmostToken_first:
  assumes "tokenAt s i"
  shows "\<exists>k\<le>i. tokenAt s k \<and> (\<forall>m<k. \<not> tokenAt s m) \<and> leftmostToken s = Some (take 11 (drop k s))"
proof -
  from assms have il: "i < Suc (length s)" by (simp add: tokenAt_def)
  then have "i \<in> set [0..<Suc (length s)]" by (simp del: upt_Suc)
  with assms have "List.find (tokenAt s) [0..<Suc (length s)] \<noteq> None"
    by (auto simp: find_None_iff simp del: upt_Suc)
  then obtain k where f: "List.find (tokenAt s) [0..<Suc (length s)] = Some k" by auto
  then obtain j where j: "j < length [0..<Suc (length s)]" "tokenAt s ([0..<Suc (length s)] ! j)"
      "k = [0..<Suc (length s)] ! j" "\<forall>m<j. \<not> tokenAt s ([0..<Suc (length s)] ! m)"
    unfolding find_Some_iff by blast
  from j(1) have jl: "j < Suc (length s)" by simp
  then have kj: "k = j" using j(3) by (simp add: nth_upt del: upt_Suc)
  have tk: "tokenAt s k" using j(2,3) by simp
  have least: "\<forall>m<k. \<not> tokenAt s m"
  proof (intro allI impI)
    fix m assume "m < k"
    with kj have mj: "m < j" by simp
    with j(4) have "\<not> tokenAt s ([0..<Suc (length s)] ! m)" by blast
    moreover from mj jl have "[0..<Suc (length s)] ! m = m" by (simp add: nth_upt del: upt_Suc)
    ultimately show "\<not> tokenAt s m" by simp
  qed
  have "k \<le> i"
  proof (rule ccontr)
    assume "\<not> k \<le> i"
    then have "i < k" by simp
    with least assms show False by blast
  qed
  with tk least f show ?thesis by (auto simp: leftmostToken_def)
qed

lemma extractVideoId_fallback:
  "fallbackApplies parse s \<Longrightarrow> extractVideoId parse s = Inr (regexFallback s)"
  by (auto simp: fallbackApplies_def extractVideoId_def extractVideoId_body_def try_catch_def
      split: sum.splits option.splits)

text \<open>
  Claim C10. When the fallback applies (\<open>new URL\<close> threw, or no host-specific rule
  returned), \<open>extractVideoId\<close> returns the leftmost token: eleven characters of
  \<open>[A-Za-z0-9_-]\<close> followed by a word boundary or the end of the input. Whenever the input
  holds a token at some index, the result is the token at the first index that holds one,
  so of two or more tokens the first from the left is returned, whatever the input is.
\<close>

theorem extractVideoId_fallback_leftmost:
  "fallbackApplies parse s \<Longrightarrow>
     extractVideoId parse s = Inr (leftmostToken s)
     \<and> (\<forall>i. tokenAt s i \<longrightarrow>
          (\<exists>k\<le>i. tokenAt s k \<and> (\<forall>m<k. \<not> tokenAt s m)
             \<and> extractVideoId parse s = Inr (Some (take 11 (drop k s)))))"
proof -
  assume "fallbackApplies parse s"
  then have e: "extractVideoId parse s = Inr (leftmostToken s)"
    by (simp add: extractVideoId_fallback regexFallback_leftmost)
  show ?thesis
  proof (intro conjI allI impI)
    show "extractVideoId parse s = Inr (leftmostToken s)" by (rule e)
  next
    fix i assume "tokenAt s i"
    from leftmostToken_first[OF this] e
    show "\<exists>k\<le>i. tokenAt s k \<and> (\<forall>m<k. \<not> tokenAt s m)
        \<and> extractVideoId parse s = Inr (Some (take 11 (drop k s)))"
      by auto
  qed
qed

text \<open>The theorem at an input that is no URL and holds two tokens, at the indices 4 and
  20: the first is returned.\<close>

theorem extractVideoId_fallback_leftmost_witness:
  "fallbackApplies (\<lambda>s. Inl \<lparr>e_stderr = [], e_message = js ''Invalid URL'',
        e_string = js ''TypeError: Invalid URL''\<rparr>) (js ''see dQw4w9WgXcQ and abcdefghijk'')
   \<and> extractVideoId (\<lambda>s. Inl \<lparr>e_stderr = [], e_message = js ''Invalid URL'',
        e_string = js ''TypeError: Invalid URL''\<rparr>) (js ''see dQw4w9WgXcQ and abcdefghijk'')
      = Inr (leftmostToken (js ''see dQw4w9WgXcQ and abcdefghijk''))
   \<and> leftmostToken (js ''see dQw4w9WgXcQ and abcdefghijk'') = Some (js ''dQw4w9WgXcQ'')
   \<and> tokenAt (js ''see dQw4w9WgXcQ and abcdefghijk'') 4
   \<and> tokenAt (js ''see dQw4w9WgXcQ and abcdefghijk'') 20
   \<and> (\<exists>k\<le>20. tokenAt (js ''see dQw4w9WgXcQ and abcdefghijk'') k
        \<and> (\<forall>m<k. \<not> tokenAt (js ''see dQw4w9WgXcQ and abcdefghijk'') m)
        \<and> extractVideoId (\<lambda>s. Inl \<lparr>e_stderr = [], e_message = js ''Invalid URL'',
               e_string = js ''TypeError: Invalid URL''\<rparr>) (js ''see dQw4w9WgXcQ and abcdefghijk'')
            = Inr (Some (take 11 (drop k (js ''see dQw4w9WgXcQ and abcdefghijk'')))))"
proof -
  let ?P = "\<lambda>s::jsstring. (Inl \<lparr>e_stderr = [], e_message = js ''Invalid URL'',
        e_string = js ''TypeError: Invalid URL''\<rparr> :: exn + url)"
  have h: "fallbackApplies ?P (js ''see dQw4w9WgXcQ and abcdefghijk'')"
    by (simp add: fallbackApplies_def)
  have r: "regexFallback (js ''see dQw4w9WgXcQ and abcdefghijk'') = Some (js ''dQw4w9WgXcQ'')"
    by (simp add: js_eval)
  have t1: "tokenAt (js ''see dQw4w9WgXcQ and abcdefghijk'') 4"
    by (simp add: tokenAt_def boundaryAt_def js_def isIdChar_def isWordChar_def isDigit_def)
  have t2: "tokenAt (js ''see dQw4w9WgXcQ and abcdefghijk'') 20"
    by (simp add: tokenAt_def boundaryAt_def js_def isIdChar_def isWordChar_def isDigit_def)
  note w = extractVideoId_fallback_leftmost[OF h]
  from w have a: "extractVideoId ?P (js ''see dQw4w9WgXcQ and abcdefghijk'')
      = Inr (leftmostToken (js ''see dQw4w9WgXcQ and abcdefghijk''))"
    by blast
  from w t2 have b: "\<exists>k\<le>20. tokenAt (js ''see dQw4w9WgXcQ and abcdefghijk'') k
        \<and> (\<forall>m<k. \<not> tokenAt (js ''see dQw4w9WgXcQ and abcdefghijk'') m)
        \<and> extractVideoId ?P (js ''see dQw4w9WgXcQ and abcdefghijk'')
            = Inr (Some (take 11 (drop k (js ''see dQw4w9WgXcQ and abcdefghijk''))))"
    by blast
  have c: "leftmostToken (js ''see dQw4w9WgXcQ and abcdefghijk'') = Some (js ''dQw4w9WgXcQ'')"
    using r by (simp add: regexFallback_leftmost)
  from h a b c t1 t2 show ?thesis by blast
qed

text \<open>
  Claim C9, as the code has it. \<open>extractVideoId\<close> never throws: it always returns a token
  or null. When \<open>new URL\<close> throws, and when the URL parses but its host is not the
  short-link host and no rule of the main site returns, the result is that of the
  regular-expression fallback. On the short-link host the short-link rule always returns,
  the first path segment cut to eleven characters or null when that segment is empty or
  absent, and the fallback is not tried.
\<close>

theorem extractVideoId_never_throws:
  "(\<exists>r. extractVideoId parse s = Inr r)
   \<and> (\<forall>e. parse (trim s) = Inl e \<longrightarrow> extractVideoId parse s = Inr (regexFallback s))
   \<and> (\<forall>u. parse (trim s) = Inr u \<and> hostname u \<noteq> js ''youtu.be''
          \<and> (\<not> sublist (js ''youtube.com'') (hostname u) \<or> mainSiteRules u = None)
        \<longrightarrow> extractVideoId parse s = Inr (regexFallback s))
   \<and> (\<forall>u. parse (trim s) = Inr u \<and> hostname u = js ''youtu.be''
        \<longrightarrow> extractVideoId parse s = Inr (shortLinkRule u))"
  by (auto simp: extractVideoId_def extractVideoId_body_def try_catch_def
      split: sum.splits option.splits)

text \<open>The theorem at a string that is no URL and holds no token, at a URL of another
  host with a token in its path, and at a short link.\<close>

theorem extractVideoId_never_throws_witness:
  "extractVideoId (\<lambda>s. Inl \<lparr>e_stderr = [], e_message = js ''Invalid URL'',
        e_string = js ''TypeError: Invalid URL''\<rparr>) (js ''not a url at all'') = Inr None
   \<and> extractVideoId (\<lambda>s. Inr \<lparr>hostname = js ''example.com'', pathname = js ''/dQw4w9WgXcQ'',
        searchParams = []\<rparr>) (js ''https://example.com/dQw4w9WgXcQ'')
      = Inr (Some (js ''dQw4w9WgXcQ''))
   \<and> extractVideoId (\<lambda>s. Inr \<lparr>hostname = js ''youtu.be'', pathname = js ''/dQw4w9WgXcQ'',
        searchParams = []\<rparr>) (js ''https://youtu.be/dQw4w9WgXcQ'')
      = Inr (Some (js ''dQw4w9WgXcQ''))"
proof -
  let ?P = "\<lambda>s::jsstring. (Inl \<lparr>e_stderr = [], e_message = js ''Invalid URL'',
        e_string = js ''TypeError: Invalid URL''\<rparr> :: exn + url)"
  let ?S = "\<lambda>s::jsstring. (Inr \<lparr>hostname = js ''youtu.be'', pathname = js ''/dQw4w9WgXcQ'',
        searchParams = []\<rparr> :: exn + url)"
  have r3: "shortLinkRule \<lparr>hostname = js ''youtu.be'', pathname = js ''/dQw4w9WgXcQ'',
        searchParams = []\<rparr> = Some (js ''dQw4w9WgXcQ'')"
    by (simp add: js_eval)
  from extractVideoId_never_throws[of ?S "js ''https://youtu.be/dQw4w9WgXcQ''"]
  have c: "extractVideoId ?S (js ''https://youtu.be/dQw4w9WgXcQ'')
      = Inr (shortLinkRule \<lparr>hostname = js ''youtu.be'', pathname = js ''/dQw4w9WgXcQ'',
        searchParams = []\<rparr>)"
    by simp
  let ?Q = "\<lambda>s::jsstring. (Inr \<lparr>hostname = js ''example.com'', pathname = js ''/dQw4w9WgXcQ'',
        searchParams = []\<rparr> :: exn + url)"
  have r1: "regexFallback (js ''not a url at all'') = None"
    by (simp add: js_eval)
  have r2: "regexFallback (js ''https://example.com/dQw4w9WgXcQ'') = Some (js ''dQw4w9WgXcQ'')"
    by (simp add: js_eval)
  have h2: "hostname \<lparr>hostname = js ''example.com'', pathname = js ''/dQw4w9WgXcQ'',
        searchParams = []\<rparr> \<noteq> js ''youtu.be''
      \<and> \<not> sublist (js ''youtube.com'') (hostname \<lparr>hostname = js ''example.com'',
        pathname = js ''/dQw4w9WgXcQ'', searchParams = []\<rparr>)"
    by (simp add: js_def sublist_code)
  from extractVideoId_never_throws[of ?P "js ''not a url at all''"]
  have a: "extractVideoId ?P (js ''not a url at all'') = Inr (regexFallback (js ''not a url at all''))"
    by blast
  from extractVideoId_never_throws[of ?Q "js ''https://example.com/dQw4w9WgXcQ''"] h2
  have b: "extractVideoId ?Q (js ''https://example.com/dQw4w9WgXcQ'')
      = Inr (regexFallback (js ''https://example.com/dQw4w9WgXcQ''))"
    by blast
  from a b c r1 r2 r3 show ?thesis by simp
qed

text \<open>
  Claim C9 as stated fails: not every rule that finds nothing degrades to the fallback.
  On the short-link host with an empty first path segment the rule returns null
  (\<open>... || null\<close>), although the input holds a token that the fallback would find.
\<close>

theorem short_link_skips_fallback:
  "extractVideoId (\<lambda>s. Inr \<lparr>hostname = js ''youtu.be'', pathname = js ''/'',
        searchParams = [(js ''v'', js ''dQw4w9WgXcQ'')]\<rparr>) (js ''https://youtu.be/?v=dQw4w9WgXcQ'')
     = Inr None
   \<and> regexFallback (js ''https://youtu.be/?v=dQw4w9WgXcQ'') = Some (js ''dQw4w9WgXcQ'')"
  by (simp add: js_eval)

text \<open>
  Claim C2 fails on the code. Only the rule of the \<open>embed\<close>, \<open>v\<close>, \<open>e\<close> and \<open>watch\<close> segments
  tests its result against \<open>/^[\w-]{11}$/\<close>; the short-link rule only truncates, so a shorter
  first path segment is returned as it is.
\<close>

theorem extractVideoId_short_link_unvalidated:
  "extractVideoId (\<lambda>s. Inr \<lparr>hostname = js ''youtu.be'', pathname = js ''/abc'',
        searchParams = []\<rparr>) (js ''https://youtu.be/abc'') = Inr (Some (js ''abc''))
   \<and> \<not> idPattern (js ''abc'')"
  by (simp add: js_eval)


section \<open>The handlers\<close>


lemma trim_trim: "trim (trim s) = trim s"
  using trim_trimmed[OF trimmed_trim] .

lemma vttToText_trim: "trim (vttToText b) = vttToText b"
  by (simp add: vttToText_def trim_trim)

subsection \<open>The captions-API client\<close>

lemma attempt_calls:
  "attempt norm env base lang kind tag label reasons st = (res, st1) \<Longrightarrow>
     files st1 = files st \<and> set (calls st) \<subseteq> set (calls st1)"
  by (auto simp: attempt_def fetchText_def Let_def split: sum.splits if_splits)

lemma attempt_found:
  assumes "attempt norm env base lang kind tag label reasons st = (Inr (Inl found), st1)"
  shows "\<exists>u r. prefix base u \<and> CallFetch u \<in> set (calls st1) \<and> fetch_timedtext env u = Inr r
      \<and> r_ok r \<and> sublist (js ''WEBVTT'') (r_text r) \<and> 30 < length (norm (r_text r))
      \<and> tt_text found = norm (r_text r) \<and> tt_source found = tag @ langOrAny lang @ js '')''"
proof -
  from assms obtain u where u: "queryUrl env base lang kind = Inr u"
    by (auto simp: attempt_def split: sum.splits)
  then have p: "prefix base u"
    by (auto simp: queryUrl_def split: if_splits sum.splits)
  from assms u obtain r where r: "fetch_timedtext env u = Inr r"
    by (auto simp: attempt_def fetchText_def split: sum.splits)
  from assms u r show ?thesis
    using p by (auto simp: attempt_def fetchText_def Let_def split: if_splits)
qed

lemma tryTimedTextLoop_calls:
  "tryTimedTextLoop norm env base langs reasons st = (res, st') \<Longrightarrow>
     files st' = files st \<and> set (calls st) \<subseteq> set (calls st')"
proof (induction langs arbitrary: reasons st)
  case Nil
  then show ?case by auto
next
  case (Cons lang langs)
  obtain a1 st1 where a1: "attempt norm env base lang [] (js ''timedtext('')
      (js ''timedtext uploaded '') reasons st = (a1, st1)" by (cases "attempt norm env base lang [] (js ''timedtext('')
      (js ''timedtext uploaded '') reasons st") auto
  note c1 = attempt_calls[OF a1]
  show ?case
  proof (cases a1)
    case (Inl e)
    with Cons.prems a1 c1 show ?thesis by auto
  next
    case (Inr x)
    show ?thesis
    proof (cases x)
      case (Inl found)
      with Cons.prems a1 c1 Inr show ?thesis by auto
    next
      case (Inr reasons1)
      obtain a2 st2 where a2: "attempt norm env base lang (js ''&kind=asr'') (js ''timedtext-asr('')
          (js ''timedtext asr '') reasons1 st1 = (a2, st2)"
        by (cases "attempt norm env base lang (js ''&kind=asr'') (js ''timedtext-asr('')
          (js ''timedtext asr '') reasons1 st1") auto
      note c2 = attempt_calls[OF a2]
      show ?thesis
      proof (cases a2)
        case (Inl e)
        with Cons.prems a1 a2 c1 c2 \<open>a1 = Inr x\<close> \<open>x = Inr reasons1\<close> show ?thesis by auto
      next
        case i2: (Inr y)
        show ?thesis
        proof (cases y)
          case (Inl found)
          with Cons.prems a1 a2 c1 c2 \<open>a1 = Inr x\<close> \<open>x = Inr reasons1\<close> i2 show ?thesis by auto
        next
          case (Inr reasons2)
          with Cons.prems a1 a2 \<open>a1 = Inr x\<close> \<open>x = Inr reasons1\<close> i2
          have "tryTimedTextLoop norm env base langs reasons2 st2 = (res, st')" by simp
          from Cons.IH[OF this] c1 c2 show ?thesis by auto
        qed
      qed
    qed
  qed
qed

lemma attempt_accepted:
  assumes "attempt norm env base lang kind tag label reasons st = (Inr (Inl found), st1)"
    and "prefix (js ''timedtext'') tag" and "set (calls st1) \<subseteq> set (calls st')"
  shows "acceptedBy norm env base st' found"
proof -
  from attempt_found[OF assms(1)] obtain u r where
    h: "prefix base u" "CallFetch u \<in> set (calls st1)" "fetch_timedtext env u = Inr r"
      "r_ok r" "sublist (js ''WEBVTT'') (r_text r)" "30 < length (norm (r_text r))"
      "tt_text found = norm (r_text r)" "tt_source found = tag @ langOrAny lang @ js '')''"
    by blast
  from h(8) assms(2) have "prefix (js ''timedtext'') (tt_source found)"
    by (simp add: prefix_prefix)
  with h assms(3) show ?thesis unfolding acceptedBy_def by blast
qed

lemma tryTimedTextLoop_result:
  "tryTimedTextLoop norm env base langs reasons st = (Inr tt, st') \<Longrightarrow>
     tt_text tt = [] \<or> acceptedBy norm env base st' tt"
proof (induction langs arbitrary: reasons st)
  case Nil
  then show ?case by auto
next
  case (Cons lang langs)
  obtain a1 st1 where a1: "attempt norm env base lang [] (js ''timedtext('')
      (js ''timedtext uploaded '') reasons st = (a1, st1)" by (cases "attempt norm env base lang [] (js ''timedtext('')
      (js ''timedtext uploaded '') reasons st") auto
  show ?case
  proof (cases a1)
    case (Inl e)
    with Cons.prems a1 show ?thesis by auto
  next
    case (Inr x)
    show ?thesis
    proof (cases x)
      case (Inl found)
      with Cons.prems a1 Inr have e: "found = tt" "st1 = st'" by auto
      have "acceptedBy norm env base st' found"
        using a1[unfolded Inr Inl] by (rule attempt_accepted) (simp_all add: js_def e)
      with e show ?thesis by simp
    next
      case (Inr reasons1)
      obtain a2 st2 where a2: "attempt norm env base lang (js ''&kind=asr'') (js ''timedtext-asr('')
          (js ''timedtext asr '') reasons1 st1 = (a2, st2)"
        by (cases "attempt norm env base lang (js ''&kind=asr'') (js ''timedtext-asr('')
          (js ''timedtext asr '') reasons1 st1") auto
      show ?thesis
      proof (cases a2)
        case (Inl e)
        with Cons.prems a1 a2 \<open>a1 = Inr x\<close> \<open>x = Inr reasons1\<close> show ?thesis by auto
      next
        case i2: (Inr y)
        show ?thesis
        proof (cases y)
          case (Inl found)
          with Cons.prems a1 a2 \<open>a1 = Inr x\<close> \<open>x = Inr reasons1\<close> i2
          have e: "found = tt" "st2 = st'" by auto
          have "acceptedBy norm env base st' found"
            using a2[unfolded i2 Inl] by (rule attempt_accepted) (simp_all add: js_def e)
          with e show ?thesis by simp
        next
          case (Inr reasons2)
          with Cons.prems a1 a2 \<open>a1 = Inr x\<close> \<open>x = Inr reasons1\<close> i2
          have "tryTimedTextLoop norm env base langs reasons2 st2 = (Inr tt, st')" by simp
          from Cons.IH[OF this] show ?thesis .
        qed
      qed
    qed
  qed
qed


subsection \<open>A 200 response\<close>

lemma status_simps:
  "status unauthorized = 401" "status missingUrl = 400" "status invalidUrl = 400"
  "status (noCaptions debug tried) = 422" "status (toolFailed e debug tried) = 500"
  "status (tooShort_v2 debug tried n) = 422" "status (success t s) = 200"
  by (simp_all add: unauthorized_def missingUrl_def invalidUrl_def noCaptions_def toolFailed_def
      tooShort_v2_def success_def)

lemma transcribe_success:
  "transcribe env audioPath debug tried st = (Inl r, st') \<Longrightarrow>
     \<exists>t. r = success t (js ''whisper'') \<and> 30 < length t \<and> trim t = t"
  by (auto simp: transcribe_def Let_def trim_trim split: sum.splits prod.splits if_splits)

lemma whisperStage_success:
  "whisperStage env url debug tried st = (Inr r, tr, st') \<Longrightarrow> status r = 200 \<Longrightarrow>
     \<exists>t. r = success t (js ''whisper'') \<and> 30 < length t \<and> trim t = t"
  by (auto simp: whisperStage_def Let_def status_simps
      split: sum.splits prod.splits if_splits dest: transcribe_success)

lemma subtitleStage_success:
  "subtitleStage env url debug tried st = (Inr r, tr, st') \<Longrightarrow> status r = 200 \<Longrightarrow>
     \<exists>t. 30 < length t \<and> trim t = t
       \<and> (r = success t (js ''yt-dlp'') \<or> r = success t (js ''whisper''))"
  by (auto simp: subtitleStage_def Let_def vttToText_trim
      split: sum.splits prod.splits if_splits option.splits dest: whisperStage_success)

lemma tryTimedText_success:
  assumes "tryTimedText env videoId st = (Inr tt, st')" and "tt_text tt \<noteq> []"
  shows "30 < length (tt_text tt) \<and> trim (tt_text tt) = tt_text tt
     \<and> prefix (js ''timedtext'') (tt_source tt)"
proof -
  from tryTimedTextLoop_result[OF assms(1)[unfolded tryTimedText_def]] assms(2)
  have "acceptedBy vttToText env (timedtextBase videoId) st' tt" by simp
  then show ?thesis unfolding acceptedBy_def using vttToText_trim by auto
qed

lemma captionStage_success:
  assumes "captionStage env url videoId debug st = (Inr r, tr, st')" and "status r = 200"
  shows "\<exists>t s. r = success t s \<and> 30 < length t \<and> trim t = t
       \<and> (s = js ''yt-dlp'' \<or> s = js ''whisper'' \<or> prefix (js ''timedtext'') s)"
proof -
  obtain res st1 where t: "tryTimedText env videoId st = (res, st1)"
    by (cases "tryTimedText env videoId st") auto
  show ?thesis
  proof (cases res)
    case (Inl e)
    with assms(1) t show ?thesis by (simp add: captionStage_def)
  next
    case (Inr tt)
    show ?thesis
    proof (cases "tt_text tt = []")
      case False
      with assms(1) t Inr have "r = success (tt_text tt) (tt_source tt)"
        by (simp add: captionStage_def)
      with tryTimedText_success[OF t[unfolded Inr] False] show ?thesis by blast
    next
      case True
      with assms(1) t Inr obtain t0 where "subtitleStage env url debug t0 st1 = (Inr r, tr, st')"
        by (simp add: captionStage_def)
      from subtitleStage_success[OF this assms(2)] show ?thesis by blast
    qed
  qed
qed

lemma transcript_success:
  "transcript env req st = (Inr r, st') \<Longrightarrow> status r = 200 \<Longrightarrow>
     \<exists>t s. r = success t s \<and> 30 < length t \<and> trim t = t
       \<and> (s = js ''yt-dlp'' \<or> s = js ''whisper'' \<or> prefix (js ''timedtext'') s)"
  by (auto simp: transcript_def Let_def status_simps
      split: sum.splits prod.splits if_splits option.splits dest: captionStage_success)


lemma ytdlpStage_v2_success:
  "ytdlpStage_v2 env url debug tried st = (Inr r, tr, st') \<Longrightarrow> status r = 200 \<Longrightarrow>
     \<exists>t. r = success t (js ''yt-dlp'') \<and> 30 \<le> length t \<and> trim t = t"
  by (auto simp: ytdlpStage_v2_def Let_def status_simps trim_trim
      split: sum.splits prod.splits if_splits option.splits)

lemma tryTimedText_v2_success:
  assumes "tryTimedText_v2 env videoId st = (Inr tt, st')" and "tt_text tt \<noteq> []"
  shows "30 < length (tt_text tt) \<and> trim (tt_text tt) = tt_text tt
     \<and> prefix (js ''timedtext'') (tt_source tt)"
proof -
  from tryTimedTextLoop_result[OF assms(1)[unfolded tryTimedText_v2_def]] assms(2)
  have "acceptedBy (\<lambda>b. trim (vttToText_plain b)) env (timedtextBase videoId) st' tt" by simp
  then show ?thesis unfolding acceptedBy_def using trim_trim by auto
qed

lemma captionStage_v2_success:
  assumes "captionStage_v2 env url videoId debug st = (Inr r, tr, st')" and "status r = 200"
  shows "\<exists>t s. r = success t s \<and> trim t = t
       \<and> ((s = js ''yt-dlp'' \<and> 30 \<le> length t) \<or> (prefix (js ''timedtext'') s \<and> 30 < length t))"
proof -
  obtain res st1 where t: "tryTimedText_v2 env videoId st = (res, st1)"
    by (cases "tryTimedText_v2 env videoId st") auto
  show ?thesis
  proof (cases res)
    case (Inl e)
    with assms(1) t show ?thesis by (simp add: captionStage_v2_def)
  next
    case (Inr tt)
    show ?thesis
    proof (cases "tt_text tt = []")
      case False
      with assms(1) t Inr have "r = success (tt_text tt) (tt_source tt)"
        by (simp add: captionStage_v2_def)
      with tryTimedText_v2_success[OF t[unfolded Inr] False] show ?thesis by blast
    next
      case True
      with assms(1) t Inr obtain t0 where "ytdlpStage_v2 env url debug t0 st1 = (Inr r, tr, st')"
        by (simp add: captionStage_v2_def)
      from ytdlpStage_v2_success[OF this assms(2)] show ?thesis by blast
    qed
  qed
qed

lemma transcript_v2_success:
  "transcript_v2 env req st = (Inr r, st') \<Longrightarrow> status r = 200 \<Longrightarrow>
     \<exists>t s. r = success t s \<and> trim t = t
       \<and> ((s = js ''yt-dlp'' \<and> 30 \<le> length t) \<or> (prefix (js ''timedtext'') s \<and> 30 < length t))"
  by (auto simp: transcript_v2_def Let_def status_simps
      split: sum.splits prod.splits if_splits option.splits dest: captionStage_v2_success)

lemma transcript_server_success:
  "transcript_server env req st = (Inr r, st') \<Longrightarrow> status r = 200 \<Longrightarrow>
     \<exists>c. r = \<lparr>status = 200, body = [(''text'', JStr (vttToText_server c))]\<rparr>
       \<and> 30 \<le> length (vttToText_server c)"
  by (auto simp: transcript_server_def Let_def status_simps
      split: sum.splits prod.splits if_splits option.splits)

lemma unauthorized_all:
  "authFails env req \<Longrightarrow>
     transcript env req st = (Inr unauthorized, st)
     \<and> transcript_v2 env req st = (Inr unauthorized, st)
     \<and> transcript_server env req st = (Inr unauthorized, st)"
  by (simp add: transcript_def transcript_v2_def transcript_server_def)

lemmas svc_eval = js_eval orElse_def errText_def errDetail_def sh_def fetchText_def enoent_def
  readFile_def exists_def rm_force_def safeCleanup_def writeCookiesFileFromEnv_def
  langOrAny_def queryUrl_def attempt_def timedtextBase_def LANGS_def tryTimedText_def
  langs_v2_def tryTimedText_v2_def unauthorized_def missingUrl_def invalidUrl_def success_def
  debugField_def noCaptions_def toolFailed_def push_def jsonErr_def authHeader_def authFails_def
  upload_def transcribe_def whisperStage_def candidates_def subtitleStage_def jsonReasons_def
  captionStage_def transcript_def candidates_v2_def tooShort_v2_def ytdlpStage_v2_def
  captionStage_v2_def transcript_v2_def candidates_server_def tryLangs_def transcript_server_def
  networkError_def invalidURL_def exitCode1_def rickUrl_def quietEnv_def emptyDisk_def
  requestFor_def sampleVtt_def thirtyVtt_def

subsection \<open>Runs of the handlers at concrete inputs\<close>

text \<open>The timed-text endpoint answers the first query with a cue document of 49
  characters of text: both multi-stage variants return it, tagged \<open>timedtext(en)\<close>.\<close>

lemma run_timedtext:
  "fst (transcript
       (quietEnv\<lparr>fetch_timedtext := \<lambda>u. Inr \<lparr>r_ok = True, r_status = 200, r_text = sampleVtt\<rparr>\<rparr>)
       (requestFor rickUrl) emptyDisk)
     = Inr \<lparr>status = 200,
         body = [(''text'', JStr (js ''Never gonna give you up, never gonna let you down'')),
                 (''source'', JStr (js ''timedtext(en)''))]\<rparr>"
  by (simp add: svc_eval)

lemma run_timedtext_v2:
  "fst (transcript_v2
       (quietEnv\<lparr>fetch_timedtext := \<lambda>u. Inr \<lparr>r_ok = True, r_status = 200, r_text = sampleVtt\<rparr>\<rparr>)
       (requestFor rickUrl) emptyDisk)
     = Inr \<lparr>status = 200,
         body = [(''text'', JStr (js ''Never gonna give you up, never gonna let you down'')),
                 (''source'', JStr (js ''timedtext(en)''))]\<rparr>"
  by (simp add: svc_eval)

text \<open>yt-dlp writes the English subtitle file: server.js returns its text.\<close>

lemma run_server:
  "fst (transcript_server
       (quietEnv\<lparr>ytdlp := \<lambda>args fs. (None, fs(js ''/tmp/yt-0a1b2c3d4e5f.en.vtt'' \<mapsto> sampleVtt))\<rparr>)
       (requestFor rickUrl) emptyDisk)
     = Inr \<lparr>status = 200,
         body = [(''text'', JStr (js ''Never gonna give you up, never gonna let you down''))]\<rparr>"
  by (simp add: svc_eval)

lemma run_server_thirty:
  "fst (transcript_server
       (quietEnv\<lparr>ytdlp := \<lambda>args fs. (None, fs(js ''/tmp/yt-0a1b2c3d4e5f.en.vtt'' \<mapsto> thirtyVtt))\<rparr>)
       (requestFor rickUrl) emptyDisk)
     = Inr \<lparr>status = 200, body = [(''text'', JStr (js ''Never gonna give you up, never''))]\<rparr>"
  by (simp add: svc_eval)

lemma run_tryTimedText:
  "fst (tryTimedText
       (quietEnv\<lparr>fetch_timedtext := \<lambda>u. Inr \<lparr>r_ok = True, r_status = 200, r_text = sampleVtt\<rparr>\<rparr>)
       (js ''dQw4w9WgXcQ'') emptyDisk)
     = Inr \<lparr>tt_text = js ''Never gonna give you up, never gonna let you down'',
            tt_source = js ''timedtext(en)'', tt_reasons = None\<rparr>"
  by (simp add: svc_eval)

lemma run_tryTimedText_v2:
  "fst (tryTimedText_v2
       (quietEnv\<lparr>fetch_timedtext := \<lambda>u. Inr \<lparr>r_ok = True, r_status = 200, r_text = sampleVtt\<rparr>\<rparr>)
       (js ''dQw4w9WgXcQ'') emptyDisk)
     = Inr \<lparr>tt_text = js ''Never gonna give you up, never gonna let you down'',
            tt_source = js ''timedtext(en)'', tt_reasons = None\<rparr>"
  by (simp add: svc_eval)

lemma fst_run: "fst p = a \<Longrightarrow> p = (a, snd p)"
  by auto

subsection \<open>Where the text of a 200 response comes from\<close>


lemma calls_rm_force: "calls (rm_force env p st) = calls st"
  by (simp add: rm_force_def)

lemma calls_safeCleanup: "calls (safeCleanup env ps st) = calls st"
  unfolding safeCleanup_def by (induction ps arbitrary: st) (simp_all add: calls_rm_force)

lemma files_rm_force: "files (rm_force env p st) q = Some c \<Longrightarrow> files st q = Some c"
  by (auto simp: rm_force_def split: if_splits)

lemma find_SomeD: "List.find P xs = Some x \<Longrightarrow> x \<in> set xs \<and> P x"
  by (auto simp: find_Some_iff)

lemma sh_result:
  "sh env args st = (err, st1) \<Longrightarrow>
     calls st1 \<noteq> [] \<and> last (calls st1) = CallExec args \<and> files st1 = snd (ytdlp env args (files st))"
  by (auto simp: sh_def split: prod.splits)

lemma exists_content: "readFile st p = Inr c \<Longrightarrow> files st p = Some c"
  by (auto simp: readFile_def split: option.splits)

lemma attempt_origin:
  assumes "attempt norm env base lang kind tag label reasons st = (Inr (Inl found), st1)"
  shows "\<exists>u r. queryUrl env base lang kind = Inr u
      \<and> calls st1 \<noteq> [] \<and> last (calls st1) = CallFetch u
      \<and> fetch_timedtext env u = Inr r \<and> r_ok r \<and> sublist (js ''WEBVTT'') (r_text r)
      \<and> tt_text found = norm (r_text r) \<and> tt_source found = tag @ langOrAny lang @ js '')''"
proof -
  from assms obtain u where u: "queryUrl env base lang kind = Inr u"
    by (auto simp: attempt_def split: sum.splits)
  from assms u obtain r where r: "fetch_timedtext env u = Inr r"
    by (auto simp: attempt_def fetchText_def split: sum.splits)
  from assms u r show ?thesis
    by (auto simp: attempt_def fetchText_def Let_def split: if_splits)
qed

lemma tryTimedTextLoop_origin:
  "tryTimedTextLoop norm env base langs reasons st = (Inr tt, st') \<Longrightarrow> tt_text tt \<noteq> [] \<Longrightarrow>
     fromTimedtext norm env langs base st' (tt_text tt) (tt_source tt)"
proof (induction langs arbitrary: reasons st)
  case Nil
  then show ?case by auto
next
  case (Cons lang langs)
  obtain a1 st1 where a1: "attempt norm env base lang [] (js ''timedtext('')
      (js ''timedtext uploaded '') reasons st = (a1, st1)" by (cases "attempt norm env base lang [] (js ''timedtext('')
      (js ''timedtext uploaded '') reasons st") auto
  show ?case
  proof (cases a1)
    case (Inl e)
    with Cons.prems a1 show ?thesis by auto
  next
    case (Inr x)
    show ?thesis
    proof (cases x)
      case (Inl found)
      with Cons.prems a1 Inr have e: "found = tt" "st1 = st'" by auto
      from attempt_origin[OF a1[unfolded Inr Inl]] e obtain u r where
        "queryUrl env base lang [] = Inr u" "calls st' \<noteq> []" "last (calls st') = CallFetch u"
        "fetch_timedtext env u = Inr r" "r_ok r" "sublist (js ''WEBVTT'') (r_text r)"
        "tt_text tt = norm (r_text r)" "tt_source tt = js ''timedtext('' @ langOrAny lang @ js '')''"
        by auto
      then show ?thesis
        unfolding fromTimedtext_def
        by - (rule exI[of _ lang], rule exI[of _ "[]"], rule exI[of _ u], rule exI[of _ r], simp)
    next
      case (Inr reasons1)
      obtain a2 st2 where a2: "attempt norm env base lang (js ''&kind=asr'') (js ''timedtext-asr('')
          (js ''timedtext asr '') reasons1 st1 = (a2, st2)"
        by (cases "attempt norm env base lang (js ''&kind=asr'') (js ''timedtext-asr('')
          (js ''timedtext asr '') reasons1 st1") auto
      show ?thesis
      proof (cases a2)
        case (Inl e)
        with Cons.prems a1 a2 \<open>a1 = Inr x\<close> \<open>x = Inr reasons1\<close> show ?thesis by auto
      next
        case i2: (Inr y)
        show ?thesis
        proof (cases y)
          case (Inl found)
          with Cons.prems a1 a2 \<open>a1 = Inr x\<close> \<open>x = Inr reasons1\<close> i2
          have e: "found = tt" "st2 = st'" by auto
          from attempt_origin[OF a2[unfolded i2 Inl]] e obtain u r where
            "queryUrl env base lang (js ''&kind=asr'') = Inr u" "calls st' \<noteq> []"
            "last (calls st') = CallFetch u"
            "fetch_timedtext env u = Inr r" "r_ok r" "sublist (js ''WEBVTT'') (r_text r)"
            "tt_text tt = norm (r_text r)"
            "tt_source tt = js ''timedtext-asr('' @ langOrAny lang @ js '')''"
            by auto
          then show ?thesis
            unfolding fromTimedtext_def
            by - (rule exI[of _ lang], rule exI[of _ "js ''&kind=asr''"], rule exI[of _ u],
                rule exI[of _ r], simp)
        next
          case (Inr reasons2)
          with Cons.prems a1 a2 \<open>a1 = Inr x\<close> \<open>x = Inr reasons1\<close> i2
          have "tryTimedTextLoop norm env base langs reasons2 st2 = (Inr tt, st')" by simp
          from Cons.IH[OF this Cons.prems(2)] show ?thesis
            unfolding fromTimedtext_def by (metis list.set_intros(2))
        qed
      qed
    qed
  qed
qed

lemma transcribe_origin:
  "transcribe env audioPath debug tried st = (Inl r, st') \<Longrightarrow>
     \<exists>t. r = success t (js ''whisper'') \<and> fromTranscription env st' t"
  by (auto simp: transcribe_def upload_def Let_def fromTranscription_def
      split: sum.splits prod.splits if_splits)

lemma whisperStage_origin:
  "whisperStage env url debug tried st = (Inr r, tr, st') \<Longrightarrow> status r = 200 \<Longrightarrow>
     \<exists>t. r = success t (js ''whisper'') \<and> fromTranscription env st' t"
  by (auto simp: whisperStage_def Let_def status_simps
      split: sum.splits prod.splits if_splits dest: transcribe_origin)


lemma subtitle_file_origin:
  assumes "sh env args st1 = (err, st2)" and "List.find (exists st2) paths = Some p"
    and "readFile st3 p = Inr c" and "st3 = rm_force env cp st2 \<or> st3 = st2"
    and "calls st' = calls st3"
  shows "fromSubtitleFile norm env paths st' (norm c)"
proof -
  from sh_result[OF assms(1)] have c2: "calls st2 \<noteq> []" "last (calls st2) = CallExec args"
    and f2: "files st2 = snd (ytdlp env args (files st1))" by auto
  from assms(4) have c3: "calls st3 = calls st2" by (auto simp: calls_rm_force)
  from exists_content[OF assms(3)] assms(4) have "files st2 p = Some c"
    by (auto dest: files_rm_force)
  with f2 have y: "snd (ytdlp env args (files st1)) p = Some c" by simp
  from find_SomeD[OF assms(2)] have m: "p \<in> set paths" by simp
  from c2 c3 assms(5) y m show ?thesis
    unfolding fromSubtitleFile_def
    by - (rule exI[of _ args], rule exI[of _ "files st1"], rule exI[of _ p], rule exI[of _ c], simp)
qed

lemma subtitleStage_origin:
  assumes "subtitleStage env url debug tried st = (Inr r, tr, st')" and "status r = 200"
  shows "(\<exists>t. r = success t (js ''yt-dlp'')
            \<and> fromSubtitleFile vttToText env (candidates (tmpdir env @ js ''/yt-'' @ rand_subs env)) st' t)
       \<or> (\<exists>t. r = success t (js ''whisper'') \<and> fromTranscription env st' t)"
proof -
  let ?OB = "tmpdir env @ js ''/yt-'' @ rand_subs env"
  obtain w st1 where w: "writeCookiesFileFromEnv env (rand_cookies1 env) st = (w, st1)"
    by (cases "writeCookiesFileFromEnv env (rand_cookies1 env) st") auto
  show ?thesis
  proof (cases w)
    case (Inl e)
    with assms(1) w show ?thesis by (simp add: subtitleStage_def)
  next
    case (Inr cp)
    let ?args = "[url, js ''--skip-download'', js ''--no-warnings'', js ''--write-auto-sub'',
                       js ''--write-sub'', js ''--sub-format'', js ''vtt'', js ''--sub-langs'',
                       js ''all,-live_chat'', js ''-o'', ?OB @ js ''.%(ext)s'']
                      @ (if cp \<noteq> [] then [js ''--cookies'', cp] else [])"
    obtain err st2 where s: "sh env ?args st1 = (err, st2)"
      by (cases "sh env ?args st1") auto
    let ?st3 = "if cp \<noteq> [] then rm_force env cp st2 else st2"
    show ?thesis
    proof (cases "List.find (exists st2) (candidates ?OB)")
      case None
      with assms(1) w Inr s obtain t0 s0 where "whisperStage env url debug t0 s0 = (Inr r, tr, st')"
        by (simp add: subtitleStage_def Let_def)
      from whisperStage_origin[OF this assms(2)] show ?thesis by blast
    next
      case (Some p)
      show ?thesis
      proof (cases "readFile ?st3 p")
        case (Inl e)
        with assms(1) w Inr s Some show ?thesis by (simp add: subtitleStage_def Let_def)
      next
        case rf: (Inr vtt)
        show ?thesis
        proof (cases "vttToText vtt \<noteq> [] \<and> 30 < length (vttToText vtt)")
          case True
          with assms(1) w Inr s Some rf
          have r: "r = success (vttToText vtt) (js ''yt-dlp'')"
            and st: "st' = safeCleanup env (candidates ?OB) ?st3"
            by (simp_all add: subtitleStage_def Let_def)
          from st have c: "calls st' = calls ?st3" by (simp add: calls_safeCleanup)
          have "fromSubtitleFile vttToText env (candidates ?OB) st' (vttToText vtt)"
            using s Some rf _ c by (rule subtitle_file_origin[where cp = cp]) simp
          with r show ?thesis by blast
        next
          case False
          then obtain t0 s0 where "whisperStage env url debug t0 s0 = (Inr r, tr, st')"
            using assms(1) w Inr s Some rf
            by (cases "vttToText vtt = []") (simp_all add: subtitleStage_def Let_def)
          from whisperStage_origin[OF this assms(2)] show ?thesis by blast
        qed
      qed
    qed
  qed
qed

lemma captionStage_origin:
  assumes "captionStage env url videoId debug st = (Inr r, tr, st')" and "status r = 200"
  shows "\<exists>t s. r = success t s
       \<and> (fromTimedtext vttToText env LANGS (timedtextBase videoId) st' t s
          \<or> (s = js ''yt-dlp''
              \<and> fromSubtitleFile vttToText env (candidates (tmpdir env @ js ''/yt-'' @ rand_subs env)) st' t)
          \<or> (s = js ''whisper'' \<and> fromTranscription env st' t))"
proof -
  obtain res st1 where t: "tryTimedText env videoId st = (res, st1)"
    by (cases "tryTimedText env videoId st") auto
  show ?thesis
  proof (cases res)
    case (Inl e)
    with assms(1) t show ?thesis by (simp add: captionStage_def)
  next
    case (Inr tt)
    show ?thesis
    proof (cases "tt_text tt = []")
      case False
      with assms(1) t Inr have r: "r = success (tt_text tt) (tt_source tt)" and s: "st1 = st'"
        by (simp_all add: captionStage_def)
      from tryTimedTextLoop_origin[OF t[unfolded Inr tryTimedText_def] False] r s
      show ?thesis by blast
    next
      case True
      with assms(1) t Inr obtain t0 where "subtitleStage env url debug t0 st1 = (Inr r, tr, st')"
        by (simp add: captionStage_def)
      from subtitleStage_origin[OF this assms(2)] show ?thesis by blast
    qed
  qed
qed

lemma transcript_origin:
  assumes "transcript env req st = (Inr r, st')" and "status r = 200"
  shows "\<exists>url videoId t s. q_url req = Some url
       \<and> extractVideoId (parseURL env) url = Inr (Some videoId) \<and> r = success t s
       \<and> (fromTimedtext vttToText env LANGS (timedtextBase videoId) st' t s
          \<or> (s = js ''yt-dlp''
              \<and> fromSubtitleFile vttToText env (candidates (tmpdir env @ js ''/yt-'' @ rand_subs env)) st' t)
          \<or> (s = js ''whisper'' \<and> fromTranscription env st' t))"
proof -
  from assms obtain url where u: "q_url req = Some url" "url \<noteq> []" "\<not> authFails env req"
    by (auto simp: transcript_def status_simps split: option.splits if_splits)
  from assms u obtain videoId where v: "extractVideoId (parseURL env) url = Inr (Some videoId)"
      "videoId \<noteq> []"
    by (auto simp: transcript_def Let_def status_simps split: sum.splits option.splits if_splits)
  from assms u v obtain d s0 tr where "captionStage env url videoId d s0 = (Inr r, tr, st')"
    by (auto simp: transcript_def Let_def status_simps split: sum.splits prod.splits)
  from captionStage_origin[OF this assms(2)] u(1) v(1) show ?thesis by blast
qed


lemma ytdlpLoop_v2_origin:
  "ytdlpLoop_v2 env url outBase debug langs tried st = (Some p, tr, st1) \<Longrightarrow>
     \<exists>args fs. calls st1 \<noteq> [] \<and> last (calls st1) = CallExec args
       \<and> files st1 = snd (ytdlp env args fs) \<and> p \<in> set (candidates_v2 outBase)"
proof (induction langs arbitrary: tried st)
  case Nil
  then show ?case by simp
next
  case (Cons lang langs)
  let ?args = "[url, js ''--skip-download'', js ''--no-warnings'', js ''--write-auto-sub'',
                  js ''--write-sub'', js ''--sub-format'', js ''vtt'', js ''--sub-langs'',
                  orElse lang (js ''all''), js ''-o'', outBase @ js ''.%(ext)s'']"
  obtain err st2 where s: "sh env ?args st = (err, st2)" by (cases "sh env ?args st") auto
  show ?case
  proof (cases "List.find (exists st2) (candidates_v2 outBase)")
    case None
    with Cons.prems s obtain t0 where "ytdlpLoop_v2 env url outBase debug langs t0 st2 = (Some p, tr, st1)"
      by (simp add: Let_def)
    from Cons.IH[OF this] show ?thesis .
  next
    case (Some q)
    with Cons.prems s have e: "q = p" "st2 = st1" by (simp_all add: Let_def)
    from find_SomeD[OF Some] e have "p \<in> set (candidates_v2 outBase)" by simp
    with sh_result[OF s] e show ?thesis by blast
  qed
qed

lemma ytdlpStage_v2_origin:
  assumes "ytdlpStage_v2 env url debug tried st = (Inr r, tr, st')" and "status r = 200"
  shows "\<exists>t. r = success t (js ''yt-dlp'')
     \<and> fromSubtitleFile (\<lambda>b. trim (vttToText_plain b)) env
          (candidates_v2 (tmpdir env @ js ''/yt-'' @ rand_subs env)) st' t"
proof -
  let ?OB = "tmpdir env @ js ''/yt-'' @ rand_subs env"
  obtain vp tried1 st1 where l: "ytdlpLoop_v2 env url ?OB debug langs_v2 tried st = (vp, tried1, st1)"
    by (cases "ytdlpLoop_v2 env url ?OB debug langs_v2 tried st") auto
  show ?thesis
  proof (cases vp)
    case None
    with assms l show ?thesis by (auto simp: ytdlpStage_v2_def Let_def status_simps)
  next
    case (Some p)
    show ?thesis
    proof (cases "readFile st1 p")
      case (Inl e)
      with assms l Some show ?thesis by (auto simp: ytdlpStage_v2_def Let_def)
    next
      case (Inr vtt)
      with assms l Some have r: "r = success (trim (vttToText_plain vtt)) (js ''yt-dlp'')"
        and st: "st' = safeCleanup env (candidates_v2 ?OB) st1"
        by (auto simp: ytdlpStage_v2_def Let_def status_simps split: if_splits)
      from ytdlpLoop_v2_origin[OF l[unfolded Some]] obtain args fs where
        o: "calls st1 \<noteq> []" "last (calls st1) = CallExec args"
          "files st1 = snd (ytdlp env args fs)" "p \<in> set (candidates_v2 ?OB)" by blast
      from exists_content[OF Inr] o(3) have y: "snd (ytdlp env args fs) p = Some vtt" by simp
      from st have c: "calls st' = calls st1" by (simp add: calls_safeCleanup)
      have "fromSubtitleFile (\<lambda>b. trim (vttToText_plain b)) env (candidates_v2 ?OB) st'
          (trim (vttToText_plain vtt))"
        unfolding fromSubtitleFile_def using o c y
        by - (rule exI[of _ args], rule exI[of _ fs], rule exI[of _ p], rule exI[of _ vtt], simp)
      with r show ?thesis by blast
    qed
  qed
qed

lemma captionStage_v2_origin:
  assumes "captionStage_v2 env url videoId debug st = (Inr r, tr, st')" and "status r = 200"
  shows "\<exists>t s. r = success t s
       \<and> (fromTimedtext (\<lambda>b. trim (vttToText_plain b)) env langs_v2 (timedtextBase videoId) st' t s
          \<or> (s = js ''yt-dlp''
              \<and> fromSubtitleFile (\<lambda>b. trim (vttToText_plain b)) env
                   (candidates_v2 (tmpdir env @ js ''/yt-'' @ rand_subs env)) st' t))"
proof -
  obtain res st1 where t: "tryTimedText_v2 env videoId st = (res, st1)"
    by (cases "tryTimedText_v2 env videoId st") auto
  show ?thesis
  proof (cases res)
    case (Inl e)
    with assms(1) t show ?thesis by (simp add: captionStage_v2_def)
  next
    case (Inr tt)
    show ?thesis
    proof (cases "tt_text tt = []")
      case False
      with assms(1) t Inr have r: "r = success (tt_text tt) (tt_source tt)" and s: "st1 = st'"
        by (simp_all add: captionStage_v2_def)
      from tryTimedTextLoop_origin[OF t[unfolded Inr tryTimedText_v2_def] False] r s
      show ?thesis by blast
    next
      case True
      with assms(1) t Inr obtain t0 where "ytdlpStage_v2 env url debug t0 st1 = (Inr r, tr, st')"
        by (simp add: captionStage_v2_def)
      from ytdlpStage_v2_origin[OF this assms(2)] show ?thesis by blast
    qed
  qed
qed

lemma transcript_v2_origin:
  assumes "transcript_v2 env req st = (Inr r, st')" and "status r = 200"
  shows "\<exists>url videoId t s. q_url req = Some url
       \<and> extractVideoId (parseURL env) url = Inr (Some videoId) \<and> r = success t s
       \<and> (fromTimedtext (\<lambda>b. trim (vttToText_plain b)) env langs_v2 (timedtextBase videoId) st' t s
          \<or> (s = js ''yt-dlp''
              \<and> fromSubtitleFile (\<lambda>b. trim (vttToText_plain b)) env
                   (candidates_v2 (tmpdir env @ js ''/yt-'' @ rand_subs env)) st' t))"
proof -
  from assms obtain url where u: "q_url req = Some url" "url \<noteq> []" "\<not> authFails env req"
    by (auto simp: transcript_v2_def status_simps split: option.splits if_splits)
  from assms u obtain videoId where v: "extractVideoId (parseURL env) url = Inr (Some videoId)"
      "videoId \<noteq> []"
    by (auto simp: transcript_v2_def Let_def status_simps split: sum.splits option.splits if_splits)
  from assms u v obtain d s0 tr where "captionStage_v2 env url videoId d s0 = (Inr r, tr, st')"
    by (auto simp: transcript_v2_def Let_def status_simps split: sum.splits prod.splits)
  from captionStage_v2_origin[OF this assms(2)] u(1) v(1) show ?thesis by blast
qed

lemma ytdlpLoop_server_origin:
  "ytdlpLoop_server env url outBase langs st = (Some p, st1) \<Longrightarrow>
     \<exists>args fs. calls st1 \<noteq> [] \<and> last (calls st1) = CallExec args
       \<and> files st1 = snd (ytdlp env args fs) \<and> p \<in> set (candidates_server outBase)"
proof (induction langs arbitrary: st)
  case Nil
  then show ?case by simp
next
  case (Cons lang langs)
  let ?args = "[url, js ''--skip-download'', js ''--no-warnings'', js ''--write-auto-sub'',
                  js ''--write-sub'', js ''--sub-format'', js ''vtt'', js ''-o'',
                  outBase @ js ''.%(ext)s'']
                 @ (if lang \<noteq> [] then [js ''--sub-langs'', lang] else [])"
  obtain err st2 where s: "sh env ?args st = (err, st2)" by (cases "sh env ?args st") auto
  show ?case
  proof (cases "List.find (exists st2) (candidates_server outBase)")
    case None
    with Cons.prems s have "ytdlpLoop_server env url outBase langs st2 = (Some p, st1)"
      by (simp add: Let_def)
    from Cons.IH[OF this] show ?thesis .
  next
    case (Some q)
    with Cons.prems s have e: "q = p" "st2 = st1" by (simp_all add: Let_def)
    from find_SomeD[OF Some] e have "p \<in> set (candidates_server outBase)" by simp
    with sh_result[OF s] e show ?thesis by blast
  qed
qed

lemma transcript_server_origin:
  assumes "transcript_server env req st = (Inr r, st')" and "status r = 200"
  shows "\<exists>t. r = \<lparr>status = 200, body = [(''text'', JStr t)]\<rparr>
     \<and> fromSubtitleFile vttToText_server env
          (candidates_server (tmpdir env @ js ''/yt-'' @ rand_subs env)) st' t"
proof -
  let ?OB = "tmpdir env @ js ''/yt-'' @ rand_subs env"
  from assms obtain url where u: "q_url req = Some url" "url \<noteq> []" "\<not> authFails env req"
    by (auto simp: transcript_server_def status_simps split: option.splits if_splits)
  obtain vp st1 where l: "ytdlpLoop_server env url ?OB tryLangs st = (vp, st1)"
    by (cases "ytdlpLoop_server env url ?OB tryLangs st") auto
  show ?thesis
  proof (cases vp)
    case None
    with assms u l show ?thesis by (auto simp: transcript_server_def Let_def status_simps)
  next
    case (Some p)
    show ?thesis
    proof (cases "readFile st1 p")
      case (Inl e)
      with assms u l Some show ?thesis by (auto simp: transcript_server_def Let_def status_simps)
    next
      case (Inr vtt)
      with assms u l Some have r: "r = \<lparr>status = 200, body = [(''text'', JStr (vttToText_server vtt))]\<rparr>"
        and st: "st' = safeCleanup env (candidates_server ?OB) st1"
        by (auto simp: transcript_server_def Let_def split: if_splits)
      from ytdlpLoop_server_origin[OF l[unfolded Some]] obtain args fs where
        o: "calls st1 \<noteq> []" "last (calls st1) = CallExec args"
          "files st1 = snd (ytdlp env args fs)" "p \<in> set (candidates_server ?OB)" by blast
      from exists_content[OF Inr] o(3) have y: "snd (ytdlp env args fs) p = Some vtt" by simp
      from st have c: "calls st' = calls st1" by (simp add: calls_safeCleanup)
      have "fromSubtitleFile vttToText_server env (candidates_server ?OB) st' (vttToText_server vtt)"
        unfolding fromSubtitleFile_def using o c y
        by - (rule exI[of _ args], rule exI[of _ fs], rule exI[of _ p], rule exI[of _ vtt], simp)
      with r show ?thesis by blast
    qed
  qed
qed

subsection \<open>A client that gets no successful response\<close>

lemma attempt_not_ok:
  assumes "\<And>u. \<exists>r. fetch_timedtext env u = Inr r \<and> \<not> r_ok r"
    and "\<And>l. \<exists>x. encodeURIComponent env l = Inr x"
  shows "\<exists>rs st1. attempt norm env base lang kind tag label reasons st = (Inr (Inr rs), st1)
     \<and> files st1 = files st"
proof -
  from assms(2) obtain u where u: "queryUrl env base lang kind = Inr u"
    by (cases "lang = []") (auto simp: queryUrl_def split: sum.splits, metis sum.simps(6))
  from assms(1) obtain r where r: "fetch_timedtext env u = Inr r" "\<not> r_ok r" by blast
  then show ?thesis using u by (simp add: attempt_def fetchText_def)
qed

lemma tryTimedTextLoop_not_ok:
  assumes "\<And>u. \<exists>r. fetch_timedtext env u = Inr r \<and> \<not> r_ok r"
    and "\<And>l. \<exists>x. encodeURIComponent env l = Inr x"
  shows "\<exists>rs st'. tryTimedTextLoop norm env base langs reasons st
       = (Inr \<lparr>tt_text = [], tt_source = [], tt_reasons = Some rs\<rparr>, st')
     \<and> files st' = files st"
proof (induction langs arbitrary: reasons st)
  case Nil
  then show ?case by simp
next
  case (Cons lang langs)
  from attempt_not_ok[OF assms] obtain rs1 st1 where
    a1: "attempt norm env base lang [] (js ''timedtext('') (js ''timedtext uploaded '') reasons st
      = (Inr (Inr rs1), st1)" "files st1 = files st" by blast
  from attempt_not_ok[OF assms] obtain rs2 st2 where
    a2: "attempt norm env base lang (js ''&kind=asr'') (js ''timedtext-asr('') (js ''timedtext asr '')
      rs1 st1 = (Inr (Inr rs2), st2)" "files st2 = files st1" by blast
  from Cons.IH[of rs2 st2] a1 a2 show ?case by auto
qed

subsection \<open>The claims about the handlers\<close>

text \<open>
  Claim C6. The captions-API client accepts a response only when the HTTP status
  indicates success, the body contains \<open>WEBVTT\<close> and the normalized text is longer than 30:
  a non-empty result of \<open>tryTimedText\<close> (of either variant) is the normalized body of such
  a response to one of the queries it made. In particular, when no response carries the
  signature, the result is empty whatever the statuses are.
\<close>

theorem tryTimedText_accepts_only:
  "(tryTimedText env videoId st = (Inr tt, st') \<and> tt_text tt \<noteq> [] \<longrightarrow>
      (\<exists>u r. prefix (timedtextBase videoId) u \<and> CallFetch u \<in> set (calls st')
         \<and> fetch_timedtext env u = Inr r \<and> r_ok r \<and> sublist (js ''WEBVTT'') (r_text r)
         \<and> 30 < length (vttToText (r_text r)) \<and> tt_text tt = vttToText (r_text r)))
   \<and> (tryTimedText_v2 env videoId st = (Inr tt, st') \<and> tt_text tt \<noteq> [] \<longrightarrow>
      (\<exists>u r. prefix (timedtextBase videoId) u \<and> CallFetch u \<in> set (calls st')
         \<and> fetch_timedtext env u = Inr r \<and> r_ok r \<and> sublist (js ''WEBVTT'') (r_text r)
         \<and> 30 < length (trim (vttToText_plain (r_text r)))
         \<and> tt_text tt = trim (vttToText_plain (r_text r))))
   \<and> ((\<forall>u r. fetch_timedtext env u = Inr r \<longrightarrow> \<not> sublist (js ''WEBVTT'') (r_text r)) \<longrightarrow>
        (tryTimedText env videoId st = (Inr tt, st') \<longrightarrow> tt_text tt = [])
        \<and> (tryTimedText_v2 env videoId st = (Inr tt, st') \<longrightarrow> tt_text tt = []))"
proof -
  have a: "\<exists>u r. prefix (timedtextBase videoId) u \<and> CallFetch u \<in> set (calls st')
         \<and> fetch_timedtext env u = Inr r \<and> r_ok r \<and> sublist (js ''WEBVTT'') (r_text r)
         \<and> 30 < length (vttToText (r_text r)) \<and> tt_text tt = vttToText (r_text r)"
    if "tryTimedText env videoId st = (Inr tt, st')" and "tt_text tt \<noteq> []"
  proof -
    from tryTimedTextLoop_result[OF that(1)[unfolded tryTimedText_def]] that(2)
    have "acceptedBy vttToText env (timedtextBase videoId) st' tt" by simp
    then show ?thesis unfolding acceptedBy_def by blast
  qed
  have b: "\<exists>u r. prefix (timedtextBase videoId) u \<and> CallFetch u \<in> set (calls st')
         \<and> fetch_timedtext env u = Inr r \<and> r_ok r \<and> sublist (js ''WEBVTT'') (r_text r)
         \<and> 30 < length (trim (vttToText_plain (r_text r)))
         \<and> tt_text tt = trim (vttToText_plain (r_text r))"
    if "tryTimedText_v2 env videoId st = (Inr tt, st')" and "tt_text tt \<noteq> []"
  proof -
    from tryTimedTextLoop_result[OF that(1)[unfolded tryTimedText_v2_def]] that(2)
    have "acceptedBy (\<lambda>b. trim (vttToText_plain b)) env (timedtextBase videoId) st' tt" by simp
    then show ?thesis unfolding acceptedBy_def by blast
  qed
  from a b show ?thesis by blast
qed

text \<open>The theorem at an endpoint that answers the first query with a cue document, and
  at one that answers every query with 404 and an empty body.\<close>

theorem tryTimedText_accepts_only_witness:
  "fst (tryTimedText
       (quietEnv\<lparr>fetch_timedtext := \<lambda>u. Inr \<lparr>r_ok = True, r_status = 200, r_text = sampleVtt\<rparr>\<rparr>)
       (js ''dQw4w9WgXcQ'') emptyDisk)
     = Inr \<lparr>tt_text = js ''Never gonna give you up, never gonna let you down'',
            tt_source = js ''timedtext(en)'', tt_reasons = None\<rparr>
   \<and> (\<exists>u r. fetch_timedtext
          (quietEnv\<lparr>fetch_timedtext := \<lambda>u. Inr \<lparr>r_ok = True, r_status = 200, r_text = sampleVtt\<rparr>\<rparr>) u
          = Inr r
        \<and> r_ok r \<and> sublist (js ''WEBVTT'') (r_text r) \<and> 30 < length (vttToText (r_text r))
        \<and> js ''Never gonna give you up, never gonna let you down'' = vttToText (r_text r))
   \<and> fst (tryTimedText_v2
       (quietEnv\<lparr>fetch_timedtext := \<lambda>u. Inr \<lparr>r_ok = True, r_status = 200, r_text = sampleVtt\<rparr>\<rparr>)
       (js ''dQw4w9WgXcQ'') emptyDisk)
     = Inr \<lparr>tt_text = js ''Never gonna give you up, never gonna let you down'',
            tt_source = js ''timedtext(en)'', tt_reasons = None\<rparr>
   \<and> (\<exists>u r. fetch_timedtext
          (quietEnv\<lparr>fetch_timedtext := \<lambda>u. Inr \<lparr>r_ok = True, r_status = 200, r_text = sampleVtt\<rparr>\<rparr>) u
          = Inr r
        \<and> r_ok r \<and> sublist (js ''WEBVTT'') (r_text r)
        \<and> 30 < length (trim (vttToText_plain (r_text r)))
        \<and> js ''Never gonna give you up, never gonna let you down''
            = trim (vttToText_plain (r_text r)))
   \<and> (\<exists>tt. fst (tryTimedText quietEnv (js ''dQw4w9WgXcQ'') emptyDisk) = Inr tt \<and> tt_text tt = [])
   \<and> (\<exists>tt. fst (tryTimedText_v2 quietEnv (js ''dQw4w9WgXcQ'') emptyDisk) = Inr tt \<and> tt_text tt = [])"
proof -
  let ?E = "quietEnv\<lparr>fetch_timedtext := \<lambda>u. Inr \<lparr>r_ok = True, r_status = 200, r_text = sampleVtt\<rparr>\<rparr>"
  let ?T = "\<lparr>tt_text = js ''Never gonna give you up, never gonna let you down'',
            tt_source = js ''timedtext(en)'', tt_reasons = None\<rparr>"
  have ne: "tt_text ?T \<noteq> []" by (simp add: js_def)
  note r1 = fst_run[OF run_tryTimedText]
  note r2 = fst_run[OF run_tryTimedText_v2]
  from tryTimedText_accepts_only[of ?E "js ''dQw4w9WgXcQ''" emptyDisk ?T
      "snd (tryTimedText ?E (js ''dQw4w9WgXcQ'') emptyDisk)"] r1 ne
  have a: "\<exists>u r. fetch_timedtext ?E u = Inr r
        \<and> r_ok r \<and> sublist (js ''WEBVTT'') (r_text r) \<and> 30 < length (vttToText (r_text r))
        \<and> tt_text ?T = vttToText (r_text r)"
    by blast
  from tryTimedText_accepts_only[of ?E "js ''dQw4w9WgXcQ''" emptyDisk ?T
      "snd (tryTimedText_v2 ?E (js ''dQw4w9WgXcQ'') emptyDisk)"] r2 ne
  have b: "\<exists>u r. fetch_timedtext ?E u = Inr r
        \<and> r_ok r \<and> sublist (js ''WEBVTT'') (r_text r)
        \<and> 30 < length (trim (vttToText_plain (r_text r)))
        \<and> tt_text ?T = trim (vttToText_plain (r_text r))"
    by blast
  have q: "\<forall>u r. fetch_timedtext quietEnv u = Inr r \<longrightarrow> \<not> sublist (js ''WEBVTT'') (r_text r)"
    by (auto simp: quietEnv_def js_def)
  have f: "\<And>u. \<exists>r. fetch_timedtext quietEnv u = Inr r \<and> \<not> r_ok r"
    by (simp add: quietEnv_def)
  have e: "\<And>l. \<exists>x. encodeURIComponent quietEnv l = Inr x"
    by (simp add: quietEnv_def)
  from tryTimedTextLoop_not_ok[of quietEnv vttToText "timedtextBase (js ''dQw4w9WgXcQ'')" LANGS "[]"
      emptyDisk, OF f e]
  obtain rs1 st1 where t1: "tryTimedText quietEnv (js ''dQw4w9WgXcQ'') emptyDisk
      = (Inr \<lparr>tt_text = [], tt_source = [], tt_reasons = Some rs1\<rparr>, st1)"
    unfolding tryTimedText_def by blast
  from tryTimedTextLoop_not_ok[of quietEnv "\<lambda>b. trim (vttToText_plain b)"
      "timedtextBase (js ''dQw4w9WgXcQ'')" langs_v2 "[]" emptyDisk, OF f e]
  obtain rs2 st2 where t2: "tryTimedText_v2 quietEnv (js ''dQw4w9WgXcQ'') emptyDisk
      = (Inr \<lparr>tt_text = [], tt_source = [], tt_reasons = Some rs2\<rparr>, st2)"
    unfolding tryTimedText_v2_def by blast
  from tryTimedText_accepts_only[of quietEnv "js ''dQw4w9WgXcQ''" emptyDisk
      "\<lparr>tt_text = [], tt_source = [], tt_reasons = Some rs1\<rparr>" st1] q t1
  have c: "\<exists>tt. fst (tryTimedText quietEnv (js ''dQw4w9WgXcQ'') emptyDisk) = Inr tt \<and> tt_text tt = []"
    by auto
  from tryTimedText_accepts_only[of quietEnv "js ''dQw4w9WgXcQ''" emptyDisk
      "\<lparr>tt_text = [], tt_source = [], tt_reasons = Some rs2\<rparr>" st2] q t2
  have d: "\<exists>tt. fst (tryTimedText_v2 quietEnv (js ''dQw4w9WgXcQ'') emptyDisk) = Inr tt \<and> tt_text tt = []"
    by auto
  from a b c d run_tryTimedText run_tryTimedText_v2 show ?thesis by simp
qed

text \<open>
  Claim C7. With a server token configured, a request whose \<open>Authorization\<close> header is
  absent or is not exactly \<open>Bearer <token>\<close> gets the 401 response with an error field, in
  every variant, and the state is returned as it was: no file is touched and the log of
  calls (fetches, subprocess runs, uploads, identifier extraction) gains no entry.
\<close>

theorem unauthorized_before_any_call:
  "TOKEN env \<noteq> [] \<Longrightarrow> authHeader req \<noteq> js ''Bearer '' @ TOKEN env \<Longrightarrow>
     transcript env req st
       = (Inr \<lparr>status = 401, body = [(''error'', JStr (js ''Unauthorized''))]\<rparr>, st)
     \<and> transcript_v2 env req st
       = (Inr \<lparr>status = 401, body = [(''error'', JStr (js ''Unauthorized''))]\<rparr>, st)
     \<and> transcript_server env req st
       = (Inr \<lparr>status = 401, body = [(''error'', JStr (js ''Unauthorized''))]\<rparr>, st)"
  using unauthorized_all[of env req st] by (simp add: authFails_def unauthorized_def)

text \<open>The theorem at a request with a wrong token, for a video that has captions.\<close>

theorem unauthorized_before_any_call_witness:
  "transcript
       (quietEnv\<lparr>TOKEN := js ''s3cret'',
          fetch_timedtext := \<lambda>u. Inr \<lparr>r_ok = True, r_status = 200, r_text = sampleVtt\<rparr>\<rparr>)
       \<lparr>authorization = Some (js ''Bearer guess''), q_url = Some rickUrl, q_debug = None\<rparr> emptyDisk
     = (Inr \<lparr>status = 401, body = [(''error'', JStr (js ''Unauthorized''))]\<rparr>, emptyDisk)
   \<and> transcript_v2
       (quietEnv\<lparr>TOKEN := js ''s3cret'',
          fetch_timedtext := \<lambda>u. Inr \<lparr>r_ok = True, r_status = 200, r_text = sampleVtt\<rparr>\<rparr>)
       \<lparr>authorization = Some (js ''Bearer guess''), q_url = Some rickUrl, q_debug = None\<rparr> emptyDisk
     = (Inr \<lparr>status = 401, body = [(''error'', JStr (js ''Unauthorized''))]\<rparr>, emptyDisk)
   \<and> transcript_server
       (quietEnv\<lparr>TOKEN := js ''s3cret'',
          fetch_timedtext := \<lambda>u. Inr \<lparr>r_ok = True, r_status = 200, r_text = sampleVtt\<rparr>\<rparr>)
       \<lparr>authorization = Some (js ''Bearer guess''), q_url = Some rickUrl, q_debug = None\<rparr> emptyDisk
     = (Inr \<lparr>status = 401, body = [(''error'', JStr (js ''Unauthorized''))]\<rparr>, emptyDisk)"
proof -
  let ?E = "quietEnv\<lparr>TOKEN := js ''s3cret'',
          fetch_timedtext := \<lambda>u. Inr \<lparr>r_ok = True, r_status = 200, r_text = sampleVtt\<rparr>\<rparr>"
  let ?R = "\<lparr>authorization = Some (js ''Bearer guess''), q_url = Some rickUrl, q_debug = None\<rparr>"
  have h1: "TOKEN ?E \<noteq> []" by (simp add: quietEnv_def js_def)
  have h2: "authHeader ?R \<noteq> js ''Bearer '' @ TOKEN ?E"
    by (simp add: authHeader_def quietEnv_def js_def)
  from unauthorized_before_any_call[OF h1 h2, of emptyDisk] show ?thesis .
qed

text \<open>
  Claim C4, as the code has it. In the two multi-stage variants (part_001, part_002) the
  body of every 200 response is \<open>{text, source}\<close> with a non-empty text, and the source
  names the stage that produced the text: \<open>timedtext(lang)\<close> or \<open>timedtext-asr(lang)\<close> when
  the text is the normalized body of the accepted response to the uploaded or ASR query
  for that language, \<open>yt-dlp\<close> when it is the normalized content of a candidate subtitle
  file left by the last run of yt-dlp, and (part_001) \<open>whisper\<close> when it is the trimmed
  answer to the last upload to the transcription endpoint. In server.js, which has the
  yt-dlp stage only, the body of every 200 response is \<open>{text}\<close>, with no source field; the
  text is non-empty and is the normalized content of a candidate subtitle file.
\<close>

theorem success_body_shape:
  "(transcript env req st = (Inr r, st') \<and> status r = 200 \<longrightarrow>
      (\<exists>url videoId t s. q_url req = Some url
         \<and> extractVideoId (parseURL env) url = Inr (Some videoId)
         \<and> body r = [(''text'', JStr t), (''source'', JStr s)] \<and> t \<noteq> []
         \<and> (fromTimedtext vttToText env LANGS (timedtextBase videoId) st' t s
            \<or> (s = js ''yt-dlp''
                \<and> fromSubtitleFile vttToText env
                     (candidates (tmpdir env @ js ''/yt-'' @ rand_subs env)) st' t)
            \<or> (s = js ''whisper'' \<and> fromTranscription env st' t))))
   \<and> (transcript_v2 env req st = (Inr r, st') \<and> status r = 200 \<longrightarrow>
      (\<exists>url videoId t s. q_url req = Some url
         \<and> extractVideoId (parseURL env) url = Inr (Some videoId)
         \<and> body r = [(''text'', JStr t), (''source'', JStr s)] \<and> t \<noteq> []
         \<and> (fromTimedtext (\<lambda>b. trim (vttToText_plain b)) env langs_v2 (timedtextBase videoId) st' t s
            \<or> (s = js ''yt-dlp''
                \<and> fromSubtitleFile (\<lambda>b. trim (vttToText_plain b)) env
                     (candidates_v2 (tmpdir env @ js ''/yt-'' @ rand_subs env)) st' t))))
   \<and> (transcript_server env req st = (Inr r, st') \<and> status r = 200 \<longrightarrow>
      (\<exists>t. body r = [(''text'', JStr t)] \<and> t \<noteq> []
         \<and> fromSubtitleFile vttToText_server env
              (candidates_server (tmpdir env @ js ''/yt-'' @ rand_subs env)) st' t))"
proof (intro conjI impI)
  assume a: "transcript env req st = (Inr r, st') \<and> status r = 200"
  then obtain t' s' where l: "r = success t' s'" "30 < length t'"
    using transcript_success by blast
  from a obtain url videoId t s where o: "q_url req = Some url"
      "extractVideoId (parseURL env) url = Inr (Some videoId)" "r = success t s"
      "fromTimedtext vttToText env LANGS (timedtextBase videoId) st' t s
        \<or> (s = js ''yt-dlp''
            \<and> fromSubtitleFile vttToText env (candidates (tmpdir env @ js ''/yt-'' @ rand_subs env)) st' t)
        \<or> (s = js ''whisper'' \<and> fromTranscription env st' t)"
    using transcript_origin by blast
  from l o(3) have "t \<noteq> []" by (auto simp: success_def)
  with o show "\<exists>url videoId t s. q_url req = Some url
         \<and> extractVideoId (parseURL env) url = Inr (Some videoId)
         \<and> body r = [(''text'', JStr t), (''source'', JStr s)] \<and> t \<noteq> []
         \<and> (fromTimedtext vttToText env LANGS (timedtextBase videoId) st' t s
            \<or> (s = js ''yt-dlp''
                \<and> fromSubtitleFile vttToText env
                     (candidates (tmpdir env @ js ''/yt-'' @ rand_subs env)) st' t)
            \<or> (s = js ''whisper'' \<and> fromTranscription env st' t))"
    by (auto simp: success_def)
next
  assume a: "transcript_v2 env req st = (Inr r, st') \<and> status r = 200"
  then obtain t' s' where l: "r = success t' s'"
      "(s' = js ''yt-dlp'' \<and> 30 \<le> length t') \<or> (prefix (js ''timedtext'') s' \<and> 30 < length t')"
    using transcript_v2_success by blast
  from a obtain url videoId t s where o: "q_url req = Some url"
      "extractVideoId (parseURL env) url = Inr (Some videoId)" "r = success t s"
      "fromTimedtext (\<lambda>b. trim (vttToText_plain b)) env langs_v2 (timedtextBase videoId) st' t s
        \<or> (s = js ''yt-dlp''
            \<and> fromSubtitleFile (\<lambda>b. trim (vttToText_plain b)) env
                 (candidates_v2 (tmpdir env @ js ''/yt-'' @ rand_subs env)) st' t)"
    using transcript_v2_origin by blast
  from l o(3) have "t \<noteq> []" by (auto simp: success_def)
  with o show "\<exists>url videoId t s. q_url req = Some url
         \<and> extractVideoId (parseURL env) url = Inr (Some videoId)
         \<and> body r = [(''text'', JStr t), (''source'', JStr s)] \<and> t \<noteq> []
         \<and> (fromTimedtext (\<lambda>b. trim (vttToText_plain b)) env langs_v2 (timedtextBase videoId) st' t s
            \<or> (s = js ''yt-dlp''
                \<and> fromSubtitleFile (\<lambda>b. trim (vttToText_plain b)) env
                     (candidates_v2 (tmpdir env @ js ''/yt-'' @ rand_subs env)) st' t))"
    by (auto simp: success_def)
next
  assume a: "transcript_server env req st = (Inr r, st') \<and> status r = 200"
  then obtain c where l: "r = \<lparr>status = 200, body = [(''text'', JStr (vttToText_server c))]\<rparr>"
      "30 \<le> length (vttToText_server c)"
    using transcript_server_success by blast
  from a obtain t where o: "r = \<lparr>status = 200, body = [(''text'', JStr t)]\<rparr>"
      "fromSubtitleFile vttToText_server env
         (candidates_server (tmpdir env @ js ''/yt-'' @ rand_subs env)) st' t"
    using transcript_server_origin by blast
  from l o(1) have "t \<noteq> []" by auto
  with o show "\<exists>t. body r = [(''text'', JStr t)] \<and> t \<noteq> []
         \<and> fromSubtitleFile vttToText_server env
              (candidates_server (tmpdir env @ js ''/yt-'' @ rand_subs env)) st' t"
    by auto
qed

text \<open>The theorem at a run of each variant that ends in a 200 response: the timed-text
  endpoint answers the first query of part_001 and part_002 with a cue document, and
  yt-dlp writes the English subtitle file for server.js.\<close>

theorem success_body_shape_witness:
  "(\<exists>url videoId t s. q_url (requestFor rickUrl) = Some url
       \<and> extractVideoId (parseURL (quietEnv\<lparr>fetch_timedtext :=
              \<lambda>u. Inr \<lparr>r_ok = True, r_status = 200, r_text = sampleVtt\<rparr>\<rparr>)) url = Inr (Some videoId)
       \<and> [(''text'', JStr (js ''Never gonna give you up, never gonna let you down'')),
           (''source'', JStr (js ''timedtext(en)''))]
         = [(''text'', JStr t), (''source'', JStr s)] \<and> t \<noteq> []
       \<and> (fromTimedtext vttToText
              (quietEnv\<lparr>fetch_timedtext := \<lambda>u. Inr \<lparr>r_ok = True, r_status = 200, r_text = sampleVtt\<rparr>\<rparr>)
              LANGS (timedtextBase videoId)
              (snd (transcript
                 (quietEnv\<lparr>fetch_timedtext := \<lambda>u. Inr \<lparr>r_ok = True, r_status = 200, r_text = sampleVtt\<rparr>\<rparr>)
                 (requestFor rickUrl) emptyDisk)) t s
          \<or> (s = js ''yt-dlp''
              \<and> fromSubtitleFile vttToText
                   (quietEnv\<lparr>fetch_timedtext := \<lambda>u. Inr \<lparr>r_ok = True, r_status = 200, r_text = sampleVtt\<rparr>\<rparr>)
                   (candidates (tmpdir (quietEnv\<lparr>fetch_timedtext :=
                        \<lambda>u. Inr \<lparr>r_ok = True, r_status = 200, r_text = sampleVtt\<rparr>\<rparr>) @ js ''/yt-''
                      @ rand_subs (quietEnv\<lparr>fetch_timedtext :=
                        \<lambda>u. Inr \<lparr>r_ok = True, r_status = 200, r_text = sampleVtt\<rparr>\<rparr>)))
                   (snd (transcript
                      (quietEnv\<lparr>fetch_timedtext := \<lambda>u. Inr \<lparr>r_ok = True, r_status = 200, r_text = sampleVtt\<rparr>\<rparr>)
                      (requestFor rickUrl) emptyDisk)) t)
          \<or> (s = js ''whisper''
              \<and> fromTranscription
                   (quietEnv\<lparr>fetch_timedtext := \<lambda>u. Inr \<lparr>r_ok = True, r_status = 200, r_text = sampleVtt\<rparr>\<rparr>)
                   (snd (transcript
                      (quietEnv\<lparr>fetch_timedtext := \<lambda>u. Inr \<lparr>r_ok = True, r_status = 200, r_text = sampleVtt\<rparr>\<rparr>)
                      (requestFor rickUrl) emptyDisk)) t)))
   \<and> fst (transcript
       (quietEnv\<lparr>fetch_timedtext := \<lambda>u. Inr \<lparr>r_ok = True, r_status = 200, r_text = sampleVtt\<rparr>\<rparr>)
       (requestFor rickUrl) emptyDisk)
     = Inr \<lparr>status = 200,
         body = [(''text'', JStr (js ''Never gonna give you up, never gonna let you down'')),
                 (''source'', JStr (js ''timedtext(en)''))]\<rparr>
   \<and> (\<exists>url videoId t s. q_url (requestFor rickUrl) = Some url
       \<and> extractVideoId (parseURL (quietEnv\<lparr>fetch_timedtext :=
              \<lambda>u. Inr \<lparr>r_ok = True, r_status = 200, r_text = sampleVtt\<rparr>\<rparr>)) url = Inr (Some videoId)
       \<and> [(''text'', JStr (js ''Never gonna give you up, never gonna let you down'')),
           (''source'', JStr (js ''timedtext(en)''))]
         = [(''text'', JStr t), (''source'', JStr s)] \<and> t \<noteq> []
       \<and> (fromTimedtext (\<lambda>b. trim (vttToText_plain b))
              (quietEnv\<lparr>fetch_timedtext := \<lambda>u. Inr \<lparr>r_ok = True, r_status = 200, r_text = sampleVtt\<rparr>\<rparr>)
              langs_v2 (timedtextBase videoId)
              (snd (transcript_v2
                 (quietEnv\<lparr>fetch_timedtext := \<lambda>u. Inr \<lparr>r_ok = True, r_status = 200, r_text = sampleVtt\<rparr>\<rparr>)
                 (requestFor rickUrl) emptyDisk)) t s
          \<or> (s = js ''yt-dlp''
              \<and> fromSubtitleFile (\<lambda>b. trim (vttToText_plain b))
                   (quietEnv\<lparr>fetch_timedtext := \<lambda>u. Inr \<lparr>r_ok = True, r_status = 200, r_text = sampleVtt\<rparr>\<rparr>)
                   (candidates_v2 (tmpdir (quietEnv\<lparr>fetch_timedtext :=
                        \<lambda>u. Inr \<lparr>r_ok = True, r_status = 200, r_text = sampleVtt\<rparr>\<rparr>) @ js ''/yt-''
                      @ rand_subs (quietEnv\<lparr>fetch_timedtext :=
                        \<lambda>u. Inr \<lparr>r_ok = True, r_status = 200, r_text = sampleVtt\<rparr>\<rparr>)))
                   (snd (transcript_v2
                      (quietEnv\<lparr>fetch_timedtext := \<lambda>u. Inr \<lparr>r_ok = True, r_status = 200, r_text = sampleVtt\<rparr>\<rparr>)
                      (requestFor rickUrl) emptyDisk)) t)))
   \<and> fst (transcript_v2
       (quietEnv\<lparr>fetch_timedtext := \<lambda>u. Inr \<lparr>r_ok = True, r_status = 200, r_text = sampleVtt\<rparr>\<rparr>)
       (requestFor rickUrl) emptyDisk)
     = Inr \<lparr>status = 200,
         body = [(''text'', JStr (js ''Never gonna give you up, never gonna let you down'')),
                 (''source'', JStr (js ''timedtext(en)''))]\<rparr>
   \<and> (\<exists>t. [(''text'', JStr (js ''Never gonna give you up, never gonna let you down''))]
         = [(''text'', JStr t)] \<and> t \<noteq> []
       \<and> fromSubtitleFile vttToText_server
            (quietEnv\<lparr>ytdlp := \<lambda>args fs. (None, fs(js ''/tmp/yt-0a1b2c3d4e5f.en.vtt'' \<mapsto> sampleVtt))\<rparr>)
            (candidates_server (tmpdir (quietEnv\<lparr>ytdlp :=
                 \<lambda>args fs. (None, fs(js ''/tmp/yt-0a1b2c3d4e5f.en.vtt'' \<mapsto> sampleVtt))\<rparr>) @ js ''/yt-''
               @ rand_subs (quietEnv\<lparr>ytdlp :=
                 \<lambda>args fs. (None, fs(js ''/tmp/yt-0a1b2c3d4e5f.en.vtt'' \<mapsto> sampleVtt))\<rparr>)))
            (snd (transcript_server
               (quietEnv\<lparr>ytdlp := \<lambda>args fs. (None, fs(js ''/tmp/yt-0a1b2c3d4e5f.en.vtt'' \<mapsto> sampleVtt))\<rparr>)
               (requestFor rickUrl) emptyDisk)) t)
   \<and> fst (transcript_server
       (quietEnv\<lparr>ytdlp := \<lambda>args fs. (None, fs(js ''/tmp/yt-0a1b2c3d4e5f.en.vtt'' \<mapsto> sampleVtt))\<rparr>)
       (requestFor rickUrl) emptyDisk)
     = Inr \<lparr>status = 200,
         body = [(''text'', JStr (js ''Never gonna give you up, never gonna let you down''))]\<rparr>"
proof -
  let ?E = "quietEnv\<lparr>fetch_timedtext := \<lambda>u. Inr \<lparr>r_ok = True, r_status = 200, r_text = sampleVtt\<rparr>\<rparr>"
  let ?F = "quietEnv\<lparr>ytdlp := \<lambda>args fs. (None, fs(js ''/tmp/yt-0a1b2c3d4e5f.en.vtt'' \<mapsto> sampleVtt))\<rparr>"
  let ?r = "\<lparr>status = 200,
         body = [(''text'', JStr (js ''Never gonna give you up, never gonna let you down'')),
                 (''source'', JStr (js ''timedtext(en)''))]\<rparr>"
  let ?q = "\<lparr>status = 200,
         body = [(''text'', JStr (js ''Never gonna give you up, never gonna let you down''))]\<rparr>"
  have s: "status ?r = 200" "status ?q = 200" by simp_all
  have br: "body ?r = [(''text'', JStr (js ''Never gonna give you up, never gonna let you down'')),
                 (''source'', JStr (js ''timedtext(en)''))]"
    and bq: "body ?q = [(''text'', JStr (js ''Never gonna give you up, never gonna let you down''))]"
    by simp_all
  note a = success_body_shape[of ?E "requestFor rickUrl" emptyDisk ?r
      "snd (transcript ?E (requestFor rickUrl) emptyDisk)", THEN conjunct1, rule_format,
      OF conjI[OF fst_run[OF run_timedtext] s(1)], unfolded br]
  note b = success_body_shape[of ?E "requestFor rickUrl" emptyDisk ?r
      "snd (transcript_v2 ?E (requestFor rickUrl) emptyDisk)", THEN conjunct2, THEN conjunct1,
      rule_format, OF conjI[OF fst_run[OF run_timedtext_v2] s(1)], unfolded br]
  note c = success_body_shape[of ?F "requestFor rickUrl" emptyDisk ?q
      "snd (transcript_server ?F (requestFor rickUrl) emptyDisk)", THEN conjunct2, THEN conjunct2,
      rule_format, OF conjI[OF fst_run[OF run_server] s(2)], unfolded bq]
  show ?thesis
    by (intro conjI) (rule a, rule run_timedtext, rule b, rule run_timedtext_v2, rule c,
        rule run_server)
qed

text \<open>
  Claim C4 as stated fails for server.js: the run in which yt-dlp writes the English
  subtitle file ends in a 200 response whose body has the text field only.
\<close>

theorem server_success_without_source:
  "fst (transcript_server
       (quietEnv\<lparr>ytdlp := \<lambda>args fs. (None, fs(js ''/tmp/yt-0a1b2c3d4e5f.en.vtt'' \<mapsto> sampleVtt))\<rparr>)
       (requestFor rickUrl) emptyDisk)
     = Inr \<lparr>status = 200,
         body = [(''text'', JStr (js ''Never gonna give you up, never gonna let you down''))]\<rparr>
   \<and> map_of [(''text'', JStr (js ''Never gonna give you up, never gonna let you down''))] ''source''
     = None"
  using run_server by simp

text \<open>
  Claim C5, as the code has it. A 200 response carries a text of at least 30 characters
  in every variant, so a text shorter than 30 is never returned as a success. The bound is
  strict (more than 30) at every stage of part_001 and at the timed-text stage of
  part_002; the yt-dlp stage of part_002 and server.js reject only texts shorter than 30,
  so a text of exactly 30 characters is returned. The text is trimmed in part_001 and
  part_002; in server.js it is the output of the normalizer, which does not trim.
\<close>

theorem success_text_length:
  "(transcript env req st = (Inr r, st') \<and> status r = 200 \<longrightarrow>
      (\<exists>t s. body r = [(''text'', JStr t), (''source'', JStr s)] \<and> 30 < length t \<and> trim t = t))
   \<and> (transcript_v2 env req st = (Inr r, st') \<and> status r = 200 \<longrightarrow>
      (\<exists>t s. body r = [(''text'', JStr t), (''source'', JStr s)] \<and> trim t = t
         \<and> ((s = js ''yt-dlp'' \<and> 30 \<le> length t) \<or> (prefix (js ''timedtext'') s \<and> 30 < length t))))
   \<and> (transcript_server env req st = (Inr r, st') \<and> status r = 200 \<longrightarrow>
      (\<exists>c. body r = [(''text'', JStr (vttToText_server c))] \<and> 30 \<le> length (vttToText_server c)))"
proof (intro conjI impI)
  assume "transcript env req st = (Inr r, st') \<and> status r = 200"
  then obtain t s where "r = success t s" "30 < length t" "trim t = t"
    using transcript_success by blast
  then show "\<exists>t s. body r = [(''text'', JStr t), (''source'', JStr s)] \<and> 30 < length t \<and> trim t = t"
    by (auto simp: success_def)
next
  assume "transcript_v2 env req st = (Inr r, st') \<and> status r = 200"
  then obtain t s where "r = success t s" "trim t = t"
      "(s = js ''yt-dlp'' \<and> 30 \<le> length t) \<or> (prefix (js ''timedtext'') s \<and> 30 < length t)"
    using transcript_v2_success by blast
  then show "\<exists>t s. body r = [(''text'', JStr t), (''source'', JStr s)] \<and> trim t = t
         \<and> ((s = js ''yt-dlp'' \<and> 30 \<le> length t) \<or> (prefix (js ''timedtext'') s \<and> 30 < length t))"
    by (auto simp: success_def)
next
  assume "transcript_server env req st = (Inr r, st') \<and> status r = 200"
  then obtain c where "r = \<lparr>status = 200, body = [(''text'', JStr (vttToText_server c))]\<rparr>"
      "30 \<le> length (vttToText_server c)"
    using transcript_server_success by blast
  then show "\<exists>c. body r = [(''text'', JStr (vttToText_server c))] \<and> 30 \<le> length (vttToText_server c)"
    by auto
qed

text \<open>The theorem at a run of each variant that ends in a 200 response.\<close>

theorem success_text_length_witness:
  "(\<exists>t s. body \<lparr>status = 200,
         body = [(''text'', JStr (js ''Never gonna give you up, never gonna let you down'')),
                 (''source'', JStr (js ''timedtext(en)''))]\<rparr>
       = [(''text'', JStr t), (''source'', JStr s)] \<and> 30 < length t \<and> trim t = t)
   \<and> fst (transcript
       (quietEnv\<lparr>fetch_timedtext := \<lambda>u. Inr \<lparr>r_ok = True, r_status = 200, r_text = sampleVtt\<rparr>\<rparr>)
       (requestFor rickUrl) emptyDisk)
     = Inr \<lparr>status = 200,
         body = [(''text'', JStr (js ''Never gonna give you up, never gonna let you down'')),
                 (''source'', JStr (js ''timedtext(en)''))]\<rparr>
   \<and> (\<exists>t s. body \<lparr>status = 200,
         body = [(''text'', JStr (js ''Never gonna give you up, never gonna let you down'')),
                 (''source'', JStr (js ''timedtext(en)''))]\<rparr>
       = [(''text'', JStr t), (''source'', JStr s)] \<and> trim t = t
       \<and> ((s = js ''yt-dlp'' \<and> 30 \<le> length t) \<or> (prefix (js ''timedtext'') s \<and> 30 < length t)))
   \<and> fst (transcript_v2
       (quietEnv\<lparr>fetch_timedtext := \<lambda>u. Inr \<lparr>r_ok = True, r_status = 200, r_text = sampleVtt\<rparr>\<rparr>)
       (requestFor rickUrl) emptyDisk)
     = Inr \<lparr>status = 200,
         body = [(''text'', JStr (js ''Never gonna give you up, never gonna let you down'')),
                 (''source'', JStr (js ''timedtext(en)''))]\<rparr>
   \<and> (\<exists>c. body \<lparr>status = 200,
         body = [(''text'', JStr (js ''Never gonna give you up, never gonna let you down''))]\<rparr>
       = [(''text'', JStr (vttToText_server c))] \<and> 30 \<le> length (vttToText_server c))
   \<and> fst (transcript_server
       (quietEnv\<lparr>ytdlp := \<lambda>args fs. (None, fs(js ''/tmp/yt-0a1b2c3d4e5f.en.vtt'' \<mapsto> sampleVtt))\<rparr>)
       (requestFor rickUrl) emptyDisk)
     = Inr \<lparr>status = 200,
         body = [(''text'', JStr (js ''Never gonna give you up, never gonna let you down''))]\<rparr>"
proof -
  let ?E = "quietEnv\<lparr>fetch_timedtext := \<lambda>u. Inr \<lparr>r_ok = True, r_status = 200, r_text = sampleVtt\<rparr>\<rparr>"
  let ?F = "quietEnv\<lparr>ytdlp := \<lambda>args fs. (None, fs(js ''/tmp/yt-0a1b2c3d4e5f.en.vtt'' \<mapsto> sampleVtt))\<rparr>"
  let ?r = "\<lparr>status = 200,
         body = [(''text'', JStr (js ''Never gonna give you up, never gonna let you down'')),
                 (''source'', JStr (js ''timedtext(en)''))]\<rparr>"
  let ?q = "\<lparr>status = 200,
         body = [(''text'', JStr (js ''Never gonna give you up, never gonna let you down''))]\<rparr>"
  have s: "status ?r = 200" "status ?q = 200" by simp_all
  from success_text_length[of ?F "requestFor rickUrl" emptyDisk ?q
      "snd (transcript_server ?F (requestFor rickUrl) emptyDisk)"] fst_run[OF run_server] s
  have c: "\<exists>c. body ?q = [(''text'', JStr (vttToText_server c))] \<and> 30 \<le> length (vttToText_server c)"
    by blast
  from success_text_length[of ?E "requestFor rickUrl" emptyDisk ?r
      "snd (transcript ?E (requestFor rickUrl) emptyDisk)"] fst_run[OF run_timedtext] s
  have a: "\<exists>t s. body ?r = [(''text'', JStr t), (''source'', JStr s)] \<and> 30 < length t \<and> trim t = t"
    by blast
  from success_text_length[of ?E "requestFor rickUrl" emptyDisk ?r
      "snd (transcript_v2 ?E (requestFor rickUrl) emptyDisk)"] fst_run[OF run_timedtext_v2] s
  have b: "\<exists>t s. body ?r = [(''text'', JStr t), (''source'', JStr s)] \<and> trim t = t
       \<and> ((s = js ''yt-dlp'' \<and> 30 \<le> length t) \<or> (prefix (js ''timedtext'') s \<and> 30 < length t))"
    by blast
  from a b c run_timedtext run_timedtext_v2 run_server show ?thesis by blast
qed

text \<open>
  Claim C5 as stated fails for server.js: a subtitle file whose text has exactly 30
  characters, which does not strictly exceed 30, is returned with status 200.
\<close>

theorem server_success_with_thirty:
  "fst (transcript_server
       (quietEnv\<lparr>ytdlp := \<lambda>args fs. (None, fs(js ''/tmp/yt-0a1b2c3d4e5f.en.vtt'' \<mapsto> thirtyVtt))\<rparr>)
       (requestFor rickUrl) emptyDisk)
     = Inr \<lparr>status = 200, body = [(''text'', JStr (js ''Never gonna give you up, never''))]\<rparr>
   \<and> length (trim (js ''Never gonna give you up, never'')) = 30"
  using run_server_thirty by (simp add: js_eval)

text \<open>
  Claim C1 fails on the code. \<open>fetchText\<close> awaits \<open>fetch\<close> with no handler and so does
  \<open>tryTimedText\<close>: when the first query is rejected (a network failure), the rejection
  leaves the client, the handler's \<open>catch\<close> answers 500 "yt-dlp failed", and neither the
  next language nor the yt-dlp or Whisper stage is tried (the log holds the extraction and
  that one fetch).
\<close>

theorem network_failure_aborts_request:
  "fst (tryTimedText (quietEnv\<lparr>fetch_timedtext := \<lambda>u. Inl networkError\<rparr>)
        (js ''dQw4w9WgXcQ'') emptyDisk) = Inl networkError
   \<and> transcript (quietEnv\<lparr>fetch_timedtext := \<lambda>u. Inl networkError\<rparr>) (requestFor rickUrl) emptyDisk
     = (Inr \<lparr>status = 500, body = [(''error'', JStr (js ''yt-dlp failed'')),
            (''detail'', JStr (js ''fetch failed''))]\<rparr>,
        \<lparr>files = Map.empty,
         calls = [CallExtract rickUrl,
           CallFetch (js ''https://www.youtube.com/api/timedtext?v=dQw4w9WgXcQ&fmt=vtt&lang=en'')]\<rparr>)"
  by (simp add: svc_eval)

subsection \<open>A run in which nothing has captions\<close>


lemma transcript_reaches_stage:
  "\<not> authFails env req \<Longrightarrow> q_url req = Some url \<Longrightarrow> url \<noteq> [] \<Longrightarrow>
   extractVideoId (parseURL env) url = Inr (Some videoId) \<Longrightarrow> videoId \<noteq> [] \<Longrightarrow>
   captionStage env url videoId (q_debug req = Some (js ''1''))
     (st\<lparr>calls := calls st @ [CallExtract url]\<rparr>) = (Inr r, tried, st1) \<Longrightarrow>
   transcript env req st = (Inr r, st1)"
  by (simp add: transcript_def Let_def)

lemma captionStage_no_captions:
  "tryTimedText env videoId st = (Inr tt, st1) \<Longrightarrow> tt_text tt = [] \<Longrightarrow>
   captionStage env url videoId False st = subtitleStage env url False [] st1"
  by (simp add: captionStage_def push_def)

lemma subtitleStage_leaves_audio:
  assumes "files st = Map.empty"
  shows "fst (subtitleStage audioErrorEnv rickUrl False [] st)
      = Inr \<lparr>status = 422, body = [(''error'', JStr (js ''No captions available for this video.''))]\<rparr>
    \<and> files (snd (snd (subtitleStage audioErrorEnv rickUrl False [] st)))
        (js ''/tmp/yt-f0e1d2c3b4a5.mp3'') = Some (js ''ID3'')"
  using assms by (simp add: svc_eval audioErrorEnv_def)

text \<open>
  Claim C3 fails on the code. The audio file is removed only on the path
  \<open>!dlErr && await exists(audioPath)\<close>. When yt-dlp leaves the audio file and exits with an
  error, the handler answers 422 and the file is still on disk.
\<close>

theorem audio_file_left_behind:
  "fst (transcript audioErrorEnv (requestFor rickUrl) emptyDisk)
     = Inr \<lparr>status = 422, body = [(''error'', JStr (js ''No captions available for this video.''))]\<rparr>
   \<and> files (snd (transcript audioErrorEnv (requestFor rickUrl) emptyDisk))
        (js ''/tmp/yt-f0e1d2c3b4a5.mp3'') = Some (js ''ID3'')"
proof -
  let ?E = audioErrorEnv
  let ?st0 = "emptyDisk\<lparr>calls := calls emptyDisk @ [CallExtract rickUrl]\<rparr>"
  have f: "\<And>u. \<exists>r. fetch_timedtext ?E u = Inr r \<and> \<not> r_ok r"
    by (simp add: audioErrorEnv_def quietEnv_def)
  have e: "\<And>l. \<exists>x. encodeURIComponent ?E l = Inr x"
    by (simp add: audioErrorEnv_def quietEnv_def)
  from tryTimedTextLoop_not_ok[of ?E vttToText "timedtextBase (js ''dQw4w9WgXcQ'')" LANGS "[]" ?st0, OF f e]
  obtain rs st1 where t: "tryTimedText ?E (js ''dQw4w9WgXcQ'') ?st0
      = (Inr \<lparr>tt_text = [], tt_source = [], tt_reasons = Some rs\<rparr>, st1)"
    and fs: "files st1 = files ?st0"
    unfolding tryTimedText_def by blast
  from fs have em: "files st1 = Map.empty" by (simp add: emptyDisk_def)
  let ?o = "subtitleStage ?E rickUrl False [] st1"
  have c: "captionStage ?E rickUrl (js ''dQw4w9WgXcQ'') False ?st0 = ?o"
    using t by (rule captionStage_no_captions) simp
  note s = subtitleStage_leaves_audio[OF em]
  have x: "extractVideoId (parseURL ?E) rickUrl = Inr (Some (js ''dQw4w9WgXcQ''))"
    by (simp add: audioErrorEnv_def quietEnv_def rickUrl_def js_eval)
  let ?r = "\<lparr>status = 422, body = [(''error'', JStr (js ''No captions available for this video.''))]\<rparr>"
  have o: "?o = (Inr ?r, fst (snd ?o), snd (snd ?o))"
    using s by (cases ?o) auto
  have "transcript ?E (requestFor rickUrl) emptyDisk = (Inr ?r, snd (snd ?o))"
  proof (rule transcript_reaches_stage)
    show "\<not> authFails ?E (requestFor rickUrl)"
      by (simp add: authFails_def audioErrorEnv_def quietEnv_def)
    show "q_url (requestFor rickUrl) = Some rickUrl" by (simp add: requestFor_def)
    show "rickUrl \<noteq> []" by (simp add: rickUrl_def js_def)
    show "extractVideoId (parseURL ?E) rickUrl = Inr (Some (js ''dQw4w9WgXcQ''))" by (rule x)
    show "js ''dQw4w9WgXcQ'' \<noteq> []" by (simp add: js_def)
    show "captionStage ?E rickUrl (js ''dQw4w9WgXcQ'')
        (q_debug (requestFor rickUrl) = Some (js ''1'')) ?st0 = (Inr ?r, fst (snd ?o), snd (snd ?o))"
      using c o by (simp add: requestFor_def)
  qed
  with s show ?thesis by simp
qed

end
